theory Spec2Isabelle
  imports Main
begin

section \<open>Exceptions\<close>

text \<open>
  Exceptions are values. The program tells apart \<^verbatim>\<open>ValueError\<close>, Playwright's
  \<^verbatim>\<open>TimeoutError\<close> and every other \<^verbatim>\<open>Exception\<close>.
\<close>

datatype exn = ValueError | PWTimeoutError | OtherError

section \<open>Python text operations used by the program\<close>

text \<open>
  Python strings are modelled as \<open>string\<close> and read as ASCII text. The operations
  below follow \<^verbatim>\<open>str.isspace\<close>, \<^verbatim>\<open>str.strip\<close>, \<^verbatim>\<open>str.upper\<close>,
  \<^verbatim>\<open>str.lower\<close>, \<^verbatim>\<open>str.startswith\<close> and the \<^verbatim>\<open>in\<close> test on the
  ASCII range; a character outside it is left alone and is neither a space nor a letter.
\<close>

definition py_isspace :: "char \<Rightarrow> bool" where
  \<comment> \<open>tab, line feed, vertical tab, form feed, carriage return, the four separators
      0x1C..0x1F and the blank\<close>
  "py_isspace c \<longleftrightarrow>
     c \<in> set [CHR 0x09, CHR 0x0A, CHR 0x0B, CHR 0x0C, CHR 0x0D,
                CHR 0x1C, CHR 0x1D, CHR 0x1E, CHR 0x1F, CHR 0x20]"

definition py_strip :: "string \<Rightarrow> string" where
  "py_strip s = rev (dropWhile py_isspace (rev (dropWhile py_isspace s)))"

definition upper_char :: "char \<Rightarrow> char" where
  "upper_char c =
     (case map_of (zip ''abcdefghijklmnopqrstuvwxyz'' ''ABCDEFGHIJKLMNOPQRSTUVWXYZ'') c of
        Some u \<Rightarrow> u
      | None \<Rightarrow> c)"

definition lower_char :: "char \<Rightarrow> char" where
  "lower_char c =
     (case map_of (zip ''ABCDEFGHIJKLMNOPQRSTUVWXYZ'' ''abcdefghijklmnopqrstuvwxyz'') c of
        Some l \<Rightarrow> l
      | None \<Rightarrow> c)"

definition py_upper :: "string \<Rightarrow> string" where
  "py_upper s = map upper_char s"

definition py_lower :: "string \<Rightarrow> string" where
  "py_lower s = map lower_char s"

definition startswith :: "string \<Rightarrow> string \<Rightarrow> bool" where
  "startswith s p \<longleftrightarrow> take (length p) s = p"

text \<open>\<^verbatim>\<open>x or d\<close> on strings: the empty string is falsy.\<close>

definition str_or :: "string \<Rightarrow> string \<Rightarrow> string" where
  "str_or x d = (if x = [] then d else x)"

text \<open>\<open>contains s sub\<close> is \<^verbatim>\<open>sub in s\<close>.\<close>

fun contains :: "string \<Rightarrow> string \<Rightarrow> bool" where
  "contains [] sub \<longleftrightarrow> sub = []"
| "contains (c # cs) sub \<longleftrightarrow> startswith (c # cs) sub \<or> contains cs sub"

text \<open>
  \<^verbatim>\<open>s.replace(old, new)\<close> for a non-empty \<open>old\<close>, the only use the program makes of
  it: the occurrences are replaced from left to right and do not overlap.
  \<open>replace_from skip\<close> first passes over the \<open>skip\<close> characters that remain of the
  occurrence just replaced.
\<close>

fun replace_from :: "nat \<Rightarrow> string \<Rightarrow> string \<Rightarrow> string \<Rightarrow> string" where
  "replace_from skip [] old new = []"
| "replace_from (Suc skip) (c # cs) old new = replace_from skip cs old new"
| "replace_from 0 (c # cs) old new =
     (if startswith (c # cs) old then new @ replace_from (length old - 1) cs old new
      else c # replace_from 0 cs old new)"

definition py_replace :: "string \<Rightarrow> string \<Rightarrow> string \<Rightarrow> string" where
  "py_replace s old new = replace_from 0 s old new"

text \<open>
  \<^verbatim>\<open>s.split()\<close>: the words between runs of whitespace, none of them empty.
  \<open>split_from cur\<close> carries the word being read.
\<close>

fun split_from :: "string \<Rightarrow> string \<Rightarrow> string list" where
  "split_from cur [] = (if cur = [] then [] else [cur])"
| "split_from cur (c # cs) =
     (if py_isspace c then (if cur = [] then split_from [] cs else cur # split_from [] cs)
      else split_from (cur @ [c]) cs)"

definition py_split :: "string \<Rightarrow> string list" where
  "py_split s = split_from [] s"

text \<open>
  \<^verbatim>\<open>int(s)\<close> in base 10: whitespace around is dropped, a sign may come first, then
  digits, where one underscore may stand between two digits; anything else raises
  \<^verbatim>\<open>ValueError\<close>. The limit that recent Python versions put on the number of digits
  (a \<^verbatim>\<open>ValueError\<close> too) is left out.
\<close>

definition is_digit :: "char \<Rightarrow> bool" where
  "is_digit c \<longleftrightarrow> c \<in> set ''0123456789''"

definition digit_val :: "char \<Rightarrow> int" where
  "digit_val c = (case map_of (zip ''0123456789'' [0, 1, 2, 3, 4, 5, 6, 7, 8, 9]) c of
                    Some v \<Rightarrow> v | None \<Rightarrow> 0)"

fun digits_ok :: "string \<Rightarrow> bool" where
  "digits_ok [] \<longleftrightarrow> False"
| "digits_ok [c] \<longleftrightarrow> is_digit c"
| "digits_ok (c # d # cs) \<longleftrightarrow>
     is_digit c \<and> (if d = CHR ''_'' then digits_ok cs else digits_ok (d # cs))"

definition digits_value :: "string \<Rightarrow> int" where
  "digits_value s = fold (\<lambda>c acc. acc * 10 + digit_val c) (filter (\<lambda>c. c \<noteq> CHR ''_'') s) 0"

definition py_int :: "string \<Rightarrow> exn + int" where
  "py_int s =
     (let t = py_strip s;
          (neg, body) = (case t of
                           c # r \<Rightarrow> if c = CHR ''-'' then (True, r)
                                    else if c = CHR ''+'' then (False, r) else (False, t)
                         | [] \<Rightarrow> (False, t))
      in if digits_ok body then Inr (if neg then - digits_value body else digits_value body)
         else Inl ValueError)"

section \<open>The two regular expressions of the program\<close>

text \<open>
  \<^verbatim>\<open>EASY_APPLY_TEXT = re.compile(r"easy\s*apply|apply\s*now", re.I)\<close> and
  \<^verbatim>\<open>CONTRACT_CORP_TO_CORP_TEXT = re.compile(r"contract\s+corp\s+to\s+corp", re.I)\<close>
  are alternatives of sequences of literal words and whitespace runs. \<open>Ws n\<close> is a run of
  at least \<open>n\<close> whitespace characters: \<^verbatim>\<open>\s*\<close> is \<open>Ws 0\<close> and \<^verbatim>\<open>\s+\<close> is \<open>Ws 1\<close>.
  Every run is followed by a word that starts with a letter, so the run a match takes is
  the whole run of whitespace found there: \<open>match_seq\<close> takes it with
  \<open>dropWhile\<close>. \<open>re_search\<close> is \<^verbatim>\<open>pattern.search(s) is not None\<close> under
  \<^verbatim>\<open>re.I\<close>: the words are written in lower case and the text is lowered first.
\<close>

datatype atom = Lit string | Ws nat

fun match_seq :: "atom list \<Rightarrow> string \<Rightarrow> bool" where
  "match_seq [] s \<longleftrightarrow> True"
| "match_seq (Lit w # atoms) s \<longleftrightarrow> startswith s w \<and> match_seq atoms (drop (length w) s)"
| "match_seq (Ws n # atoms) s \<longleftrightarrow>
     n \<le> length (takeWhile py_isspace s) \<and> match_seq atoms (dropWhile py_isspace s)"

fun search_seq :: "atom list \<Rightarrow> string \<Rightarrow> bool" where
  "search_seq atoms [] \<longleftrightarrow> match_seq atoms []"
| "search_seq atoms (c # cs) \<longleftrightarrow> match_seq atoms (c # cs) \<or> search_seq atoms cs"

definition re_search :: "atom list list \<Rightarrow> string \<Rightarrow> bool" where
  "re_search alternatives s \<longleftrightarrow> list_ex (\<lambda>atoms. search_seq atoms (py_lower s)) alternatives"

definition EASY_APPLY_TEXT :: "atom list list" where
  "EASY_APPLY_TEXT = [[Lit ''easy'', Ws 0, Lit ''apply''], [Lit ''apply'', Ws 0, Lit ''now'']]"

definition CONTRACT_CORP_TO_CORP_TEXT :: "atom list list" where
  "CONTRACT_CORP_TO_CORP_TEXT =
     [[Lit ''contract'', Ws 1, Lit ''corp'', Ws 1, Lit ''to'', Ws 1, Lit ''corp'']]"

section \<open>helper.py: the fit classifier\<close>

text \<open>
  The prompt of \<^verbatim>\<open>should_apply_to_job\<close> is a fixed text with three interpolated
  values; a request is those three values. The reasoning service is outside the
  program: it is a function from the API key and the request to either an exception
  or the \<^verbatim>\<open>content\<close> of the first choice, which may be \<^verbatim>\<open>None\<close>. The
  exception stands for whatever the \<^verbatim>\<open>try\<close> block can raise: the call itself
  (a timeout, a transport error) or reading the first choice of its answer. Building
  the client, before the \<^verbatim>\<open>try\<close>, is taken not to raise.
\<close>

record request =
  req_title :: string
  req_description :: string
  req_resume :: string

type_synonym service = "string \<Rightarrow> request \<Rightarrow> exn + string option"

definition content_or_empty :: "string option \<Rightarrow> string" where
  "content_or_empty c = (case c of None \<Rightarrow> [] | Some s \<Rightarrow> s)"

text \<open>
  The result is the verdict together with the list of requests sent to the service,
  in order: the second component is the call log of this invocation.
\<close>

definition should_apply_to_job ::
  "service \<Rightarrow> string \<Rightarrow> string \<Rightarrow> string \<Rightarrow> string \<Rightarrow> bool \<times> request list" where
  "should_apply_to_job svc api_key resume_text job_title job_description =
     (if \<not> (py_strip job_title \<noteq> [] \<or> py_strip job_description \<noteq> []) then (False, [])
      else
        let req = \<lparr> req_title = str_or job_title ''(not provided)'',
                    req_description = take 6000 job_description,
                    req_resume = take 4000 resume_text \<rparr>
        in (case svc api_key req of
              Inl e \<Rightarrow> (False, [req])
            | Inr content \<Rightarrow>
                (startswith (py_upper (py_strip (content_or_empty content))) ''YES'', [req])))"

section \<open>scrapeandapply.py: the listing collector\<close>

text \<open>
  A job is the dictionary with the keys \<^verbatim>\<open>"Job Title"\<close> and \<^verbatim>\<open>"Job Link"\<close>.
  Fetching and parsing a page are outside the program. A \<open>response\<close> is what the
  program reads of one: the status code, the \<^verbatim>\<open>aria-label\<close> of every
  \<^verbatim>\<open>section\<close> element in document order (\<open>None\<close> when the element has none),
  and for every link with \<^verbatim>\<open>data-testid="job-search-job-detail-link"\<close>, in document
  order, its text (\<^verbatim>\<open>get_text(strip=True)\<close>) and its \<^verbatim>\<open>href\<close> (\<open>None\<close> when it
  has none). A \<open>web\<close> is the listing site during one run: the answer to the first
  request for page 1, and the answer to the request the loop makes for page \<open>p\<close>;
  \<open>Inl\<close> is the exception \<^verbatim>\<open>requests.get\<close> raises.
\<close>

record job =
  Job_Title :: string
  Job_Link :: string

record response =
  status_code :: int
  sections :: "string option list"
  anchors :: "(string \<times> string option) list"

record web =
  first_fetch :: "exn + response"
  page_fetch :: "int \<Rightarrow> exn + response"

text \<open>
  \<^verbatim>\<open>get_total_pages\<close> works on the parsed first page, here the labels of its sections.
  \<open>page_section\<close> is the \<^verbatim>\<open>soup.find\<close> with the test
  \<^verbatim>\<open>lambda lbl: lbl and "Page" in lbl\<close>; \<open>parse_label\<close> is the body of the
  \<^verbatim>\<open>try\<close>: the list comprehension of \<^verbatim>\<open>int\<close> and the unpacking into two names,
  which raises \<^verbatim>\<open>ValueError\<close> unless the list has two elements.
\<close>

definition label_has_page :: "string option \<Rightarrow> bool" where
  "label_has_page lbl = (case lbl of None \<Rightarrow> False | Some l \<Rightarrow> l \<noteq> [] \<and> contains l ''Page'')"

definition page_section :: "string option list \<Rightarrow> string option option" where
  "page_section html_sections = find label_has_page html_sections"

definition label_tokens :: "string \<Rightarrow> string list" where
  "label_tokens label = py_split (py_replace (py_replace label ''Page'' []) ''of'' [])"

fun ints_of :: "string list \<Rightarrow> exn + int list" where
  "ints_of [] = Inr []"
| "ints_of (n # ns) =
     (case py_int n of
        Inl e \<Rightarrow> Inl e
      | Inr v \<Rightarrow> (case ints_of ns of Inl e \<Rightarrow> Inl e | Inr vs \<Rightarrow> Inr (v # vs)))"

definition unpack_pair :: "int list \<Rightarrow> exn + int \<times> int" where
  "unpack_pair vs = (case vs of [a, b] \<Rightarrow> Inr (a, b) | _ \<Rightarrow> Inl ValueError)"

definition parse_label :: "string \<Rightarrow> exn + int \<times> int" where
  "parse_label label =
     (case ints_of (label_tokens label) of Inl e \<Rightarrow> Inl e | Inr vs \<Rightarrow> unpack_pair vs)"

definition get_total_pages :: "string option list \<Rightarrow> exn + int" where
  "get_total_pages html_sections =
     (case page_section html_sections of
        None \<Rightarrow> Inr 1
      | Some sec \<Rightarrow>
          (case parse_label (content_or_empty sec) of
             Inr (current, total_pages) \<Rightarrow> Inr total_pages
           | Inl ValueError \<Rightarrow> Inr 1
           | Inl e \<Rightarrow> Inl e))"

text \<open>
  The first response: an exception of the request or a status from 400 to 599
  (\<^verbatim>\<open>raise_for_status\<close>) gives the empty page, which has no section.
\<close>

definition first_page :: "web \<Rightarrow> string option list" where
  "first_page w =
     (case first_fetch w of
        Inl e \<Rightarrow> []
      | Inr first_res \<Rightarrow>
          if 400 \<le> status_code first_res \<and> status_code first_res < 600 then []
          else sections first_res)"

text \<open>
  The jobs of one result page, and the loop over the pages: a page whose request raises
  or whose status is not 200 is skipped.
\<close>

fun page_jobs :: "(string \<times> string option) list \<Rightarrow> job list" where
  "page_jobs [] = []"
| "page_jobs ((title, href) # links) =
     (case href of
        None \<Rightarrow> page_jobs links
      | Some h \<Rightarrow>
          if h = [] then page_jobs links
          else \<lparr> Job_Title = title,
                 Job_Link = (if startswith h ''/'' then ''https://www.dice.com'' @ h else h) \<rparr>
               # page_jobs links)"

fun scrape_pages :: "web \<Rightarrow> int list \<Rightarrow> job list \<Rightarrow> job list" where
  "scrape_pages w [] jobs = jobs"
| "scrape_pages w (p # ps) jobs =
     (case page_fetch w p of
        Inl e \<Rightarrow> scrape_pages w ps jobs
      | Inr resp \<Rightarrow>
          if status_code resp \<noteq> 200 then scrape_pages w ps jobs
          else scrape_pages w ps (jobs @ page_jobs (anchors resp)))"

text \<open>The de-duplication loop, with its set \<open>seen\<close> and its list \<open>deduped\<close>.\<close>

fun dedupe :: "string set \<Rightarrow> job list \<Rightarrow> job list \<Rightarrow> job list" where
  "dedupe seen deduped [] = deduped"
| "dedupe seen deduped (j # jobs) =
     (if Job_Link j \<in> seen then dedupe seen deduped jobs
      else dedupe (insert (Job_Link j) seen) (deduped @ [j]) jobs)"

text \<open>
  \<^verbatim>\<open>scrape_job_listings\<close> returns the jobs; the second component is the list of the
  pages it requested in its loop, in order.
\<close>

definition scrape_job_listings :: "web \<Rightarrow> exn + job list \<times> int list" where
  "scrape_job_listings w =
     (case get_total_pages (first_page w) of
        Inl e \<Rightarrow> Inl e
      | Inr total_pages \<Rightarrow>
          Inr (dedupe {} [] (scrape_pages w [1..total_pages] []), [1..total_pages]))"

section \<open>scrapeandapply.py: the processed-link store\<close>

text \<open>
  The store is the text file \<^verbatim>\<open>seen_links.txt\<close>: \<open>None\<close> when the file does not
  exist, its content otherwise. Reading a text file line by line ends a line at a line
  feed or a carriage return; \<open>file_lines\<close> gives the lines without their terminators
  (which \<^verbatim>\<open>strip\<close> would remove) and \<^verbatim>\<open>load_seen_links\<close> drops the blank ones.
\<close>

type_synonym store = "string option"

fun lines_from :: "string \<Rightarrow> string \<Rightarrow> string list" where
  "lines_from cur [] = (if cur = [] then [] else [cur])"
| "lines_from cur (c # cs) =
     (if c = CHR 0x0A \<or> c = CHR 0x0D then cur # lines_from [] cs
      else lines_from (cur @ [c]) cs)"

definition file_lines :: "string \<Rightarrow> string list" where
  "file_lines content = lines_from [] content"

definition load_seen_links :: "store \<Rightarrow> string set" where
  "load_seen_links file =
     (case file of
        None \<Rightarrow> {}
      | Some content \<Rightarrow> set (filter (\<lambda>line. line \<noteq> []) (map py_strip (file_lines content))))"

definition append_seen_link :: "string \<Rightarrow> store \<Rightarrow> store" where
  "append_seen_link link file = Some (content_or_empty file @ link @ [CHR 0x0A])"

section \<open>scrapeandapply.py: what the browser shows\<close>

text \<open>
  The locators the program builds, each named after what it selects:
  \<^item> \<open>TestIdApply\<close>: \<^verbatim>\<open>page.get_by_test_id("apply-button")\<close>;
  \<^item> \<open>AnchorTestIdApply\<close>: \<^verbatim>\<open>page.locator('a[data-testid="apply-button"]')\<close>;
  \<^item> \<open>WizardLink\<close>: \<^verbatim>\<open>page.locator('a[href*="/job-applications/"][href*="wizard"]').filter(has_text=EASY_APPLY_TEXT)\<close>;
  \<^item> \<open>RoleLinkApply\<close>: \<^verbatim>\<open>page.get_by_role("link", name=EASY_APPLY_TEXT)\<close>;
  \<^item> \<open>AnchorSpanEasyApply\<close>: \<^verbatim>\<open>page.locator('a:has(span:has-text("Easy Apply"))')\<close>;
  \<^item> \<open>TextEasyApplyExact\<close>: \<^verbatim>\<open>page.get_by_text("Easy Apply", exact=True)\<close>;
  \<^item> \<open>TextApplyPattern\<close>: \<^verbatim>\<open>page.get_by_text(EASY_APPLY_TEXT)\<close>;
  \<^item> \<open>SpanEasyApply\<close>: \<^verbatim>\<open>page.locator("span:has-text('Easy Apply')")\<close>;
  \<^item> \<open>FlexEasyApply\<close>: \<^verbatim>\<open>page.locator("[class*='flex']:has-text('Easy Apply')")\<close>;
  \<^item> \<open>RoleButtonApply\<close>: \<^verbatim>\<open>page.get_by_role("button", name=EASY_APPLY_TEXT)\<close>;
  \<^item> \<open>ButtonApplyPattern\<close>: \<^verbatim>\<open>page.locator("button").filter(has_text=EASY_APPLY_TEXT)\<close>;
  \<^item> \<open>ButtonApplyWord\<close>: \<^verbatim>\<open>page.locator("button").filter(has_text=re.compile(r"apply", re.I))\<close>;
  \<^item> \<open>Host h\<close>: \<^verbatim>\<open>page.locator(h)\<close> for a web component \<open>h\<close> of
    \<^verbatim>\<open>APPLY_HOST_SELECTORS\<close>, and \<open>HostButtons h b\<close>: \<^verbatim>\<open>page.locator(h).locator(b)\<close>;
  \<^item> \<open>MarkerDiv\<close>:
    \<^verbatim>\<open>page.locator('div.font-medium.text-zinc-600.text-xs.leading-none:has-text("Contract Corp To Corp")')\<close>;
  \<^item> \<open>RoleButtonNext\<close>, \<open>RoleButtonSubmit\<close>: \<^verbatim>\<open>page.get_by_role("button", name="Next")\<close>
    and the same with \<^verbatim>\<open>"Submit"\<close>;
  \<^item> \<open>ButtonSpanNext\<close>, \<open>ButtonSpanSubmit\<close>: \<^verbatim>\<open>page.locator('button:has(span:text-is("Next"))')\<close>
    and the same with \<^verbatim>\<open>"Submit"\<close>;
  \<^item> \<open>ButtonTypeNext\<close>: \<^verbatim>\<open>page.locator('button[type="submit"]:has(span:has-text("Next"))')\<close>;
  \<^item> \<open>ButtonTypeSubmit\<close>: \<^verbatim>\<open>page.locator('button[type="button"]:has(span:has-text("Submit"))')\<close>;
  \<^item> \<open>FileRemove\<close>: \<^verbatim>\<open>button.file-remove\<close>; \<open>FileReplace\<close>:
    \<^verbatim>\<open>button.file-remove:has-text("Replace")\<close>; \<open>FileUploadInput\<close>:
    \<^verbatim>\<open>input#fsp-fileUpload\<close>; \<open>UploadSpan\<close>: \<^verbatim>\<open>span[data-e2e="upload"]\<close>;
  \<^item> \<open>StepSubmit\<close>: \<^verbatim>\<open>page.locator('button.btn-next:has-text("Submit")')\<close>;
    \<open>StepNext\<close>: \<^verbatim>\<open>page.locator('button.btn-next')\<close>.
\<close>

datatype locator =
    TestIdApply | AnchorTestIdApply | WizardLink
  | RoleLinkApply | AnchorSpanEasyApply | TextEasyApplyExact | TextApplyPattern
  | SpanEasyApply | FlexEasyApply
  | RoleButtonApply
  | ButtonApplyPattern | ButtonApplyWord
  | Host string | HostButtons string string
  | MarkerDiv
  | RoleButtonNext | RoleButtonSubmit | ButtonSpanNext | ButtonSpanSubmit
  | ButtonTypeNext | ButtonTypeSubmit
  | FileRemove | FileReplace | FileUploadInput | UploadSpan
  | StepSubmit | StepNext

text \<open>
  An element a locator resolves to answers \<^verbatim>\<open>is_visible\<close> and \<^verbatim>\<open>inner_text\<close>, or
  raises. A \<open>page\<close> is the browser page at one moment: what every call the program can
  make at that moment would return. \<open>query pg l\<close> are the elements locator \<open>l\<close>
  resolves to, in order (\<^verbatim>\<open>count()\<close> is their number, \<^verbatim>\<open>first\<close> and \<^verbatim>\<open>nth(i)\<close>
  pick one), or the exception \<^verbatim>\<open>count()\<close> raises. The other fields are the results of
  \<^verbatim>\<open>wait_for_selector\<close>, \<^verbatim>\<open>click\<close>, \<^verbatim>\<open>scroll_into_view_if_needed\<close>, the two
  \<^verbatim>\<open>page.evaluate\<close> scripts (the walk through the shadow roots that clicks an apply
  element and says whether it did, and the click inside one host's shadow root),
  \<^verbatim>\<open>set_input_files\<close>, \<^verbatim>\<open>goto\<close> and \<^verbatim>\<open>wait_for_load_state\<close>.
  \<^verbatim>\<open>page.wait_for_timeout\<close> only lets time pass and is taken not to raise.
\<close>

record element =
  el_visible :: "exn + bool"
  el_text :: "exn + string"

record page =
  query :: "locator \<Rightarrow> exn + element list"
  wait_for_selector :: "locator \<Rightarrow> exn + unit"
  click :: "locator \<Rightarrow> nat \<Rightarrow> exn + unit"
  scroll_into_view :: "locator \<Rightarrow> nat \<Rightarrow> exn + unit"
  evaluate_click_apply :: "exn + bool"
  evaluate_shadow_click :: "string \<Rightarrow> exn + unit"
  set_input_files :: "exn + unit"
  goto :: "exn + unit"
  wait_for_load_state :: "exn + unit"

text \<open>
  What the program does to the page, in the order it does it: the log of a run. An
  action is logged when the call is made, whatever it returns.
\<close>

datatype action =
    Goto string
  | Scroll locator nat
  | Click locator nat
  | EvalClickApply
  | EvalShadowClick string
  | SetInputFiles

text \<open>
  A piece of the program that acts on the page gives a result or an exception, and the
  actions it made. \<open>and_then\<close> runs a second piece after a first one that did not raise;
  \<open>ret\<close> does nothing, \<open>observe\<close> reads the page without acting on it and \<open>act\<close>
  makes one action.
\<close>

type_synonym 'a run = "(exn + 'a) \<times> action list"

definition and_then :: "'a run \<Rightarrow> ('a \<Rightarrow> 'b run) \<Rightarrow> 'b run" where
  "and_then m f =
     (case m of
        (Inl e, acts) \<Rightarrow> (Inl e, acts)
      | (Inr x, acts) \<Rightarrow> (case f x of (r, acts') \<Rightarrow> (r, acts @ acts')))"

definition ret :: "'a \<Rightarrow> 'a run" where
  "ret x = (Inr x, [])"

definition observe :: "exn + 'a \<Rightarrow> 'a run" where
  "observe r = (r, [])"

definition act :: "action \<Rightarrow> exn + 'a \<Rightarrow> 'a run" where
  "act a r = (r, [a])"

text \<open>A loop \<^verbatim>\<open>for x in xs\<close> that returns at the first \<open>x\<close> its body accepts.\<close>

fun first_some :: "('a \<Rightarrow> 'b option) \<Rightarrow> 'a list \<Rightarrow> 'b option" where
  "first_some f [] = None"
| "first_some f (x # xs) = (case f x of Some y \<Rightarrow> Some y | None \<Rightarrow> first_some f xs)"

text \<open>\<^verbatim>\<open>loc.count() > 0 and loc.first.is_visible(...)\<close>, outside any \<^verbatim>\<open>try\<close>.\<close>

definition count_and_visible :: "page \<Rightarrow> locator \<Rightarrow> exn + bool" where
  "count_and_visible pg loc =
     (case query pg loc of
        Inl e \<Rightarrow> Inl e
      | Inr [] \<Rightarrow> Inr False
      | Inr (el # els) \<Rightarrow> el_visible el)"

text \<open>
  \<^verbatim>\<open>for loc in locs: if loc.count() > 0 and loc.first.is_visible(...): ...\<close>: the
  first locator of the list that passes the test, or the exception the test raises first.
\<close>

fun first_shown :: "page \<Rightarrow> locator list \<Rightarrow> exn + locator option" where
  "first_shown pg [] = Inr None"
| "first_shown pg (loc # locs) =
     (case count_and_visible pg loc of
        Inl e \<Rightarrow> Inl e
      | Inr True \<Rightarrow> Inr (Some loc)
      | Inr False \<Rightarrow> first_shown pg locs)"

text \<open>\<^verbatim>\<open>loc.is_visible()\<close> on a locator itself: more than one element is an error.\<close>

definition is_visible :: "page \<Rightarrow> locator \<Rightarrow> exn + bool" where
  "is_visible pg loc =
     (case query pg loc of
        Inl e \<Rightarrow> Inl e
      | Inr [] \<Rightarrow> Inr False
      | Inr [el] \<Rightarrow> el_visible el
      | Inr (el # el' # els) \<Rightarrow> Inl OtherError)"

subsection \<open>The contract marker\<close>

definition has_contract_corp_to_corp_in_text :: "string \<Rightarrow> bool" where
  "has_contract_corp_to_corp_in_text scraped_text \<longleftrightarrow>
     scraped_text \<noteq> [] \<and> re_search CONTRACT_CORP_TO_CORP_TEXT scraped_text"

definition has_contract_corp_to_corp :: "page \<Rightarrow> bool" where
  "has_contract_corp_to_corp pg =
     (case count_and_visible pg MarkerDiv of Inl e \<Rightarrow> False | Inr v \<Rightarrow> v)"

subsection \<open>Finding the apply control\<close>

text \<open>
  \<^verbatim>\<open>_find_apply_button_anywhere\<close> and \<^verbatim>\<open>_get_apply_button\<close> are
  \<open>find_apply_button_anywhere\<close> and \<open>get_apply_button\<close> here. They see one page: the
  page does not change during one search.
\<close>

text \<open>
  What \<^verbatim>\<open>_get_apply_button\<close> returns: a locator with the index of the element taken
  (\<^verbatim>\<open>loc.first\<close> is index 0), or the string \<^verbatim>\<open>"js_clicked"\<close>.
\<close>

datatype apply_btn = Handle locator nat | JsClicked

definition APPLY_HOST_SELECTORS :: "string list" where
  "APPLY_HOST_SELECTORS = [''apply-button-wc'', ''dhi-wc-apply-button'']"

text \<open>The body of the loop of strategy 0, with its \<^verbatim>\<open>try\<close>.\<close>

definition strategy0_try :: "page \<Rightarrow> locator \<Rightarrow> apply_btn option" where
  "strategy0_try pg link_loc =
     (case count_and_visible pg link_loc of
        Inr True \<Rightarrow>
          (case query pg link_loc of
             Inr (el # els) \<Rightarrow>
               (case el_text el of
                  Inr t \<Rightarrow>
                    if re_search EASY_APPLY_TEXT (py_strip t)
                       \<or> contains (py_lower (py_strip t)) ''easy''
                    then Some (Handle link_loc 0) else None
                | Inl e \<Rightarrow> None)
           | _ \<Rightarrow> None)
      | _ \<Rightarrow> None)"

text \<open>The body of the loop of strategy 1, with its \<^verbatim>\<open>try\<close>.\<close>

definition strategy1_try :: "page \<Rightarrow> locator \<Rightarrow> apply_btn option" where
  "strategy1_try pg text_loc =
     (case count_and_visible pg text_loc of
        Inr True \<Rightarrow> Some (Handle text_loc 0)
      | _ \<Rightarrow> None)"

text \<open>Strategy 2: \<^verbatim>\<open>btn.count()\<close> is outside the \<^verbatim>\<open>try\<close>.\<close>

definition strategy2 :: "page \<Rightarrow> exn + apply_btn option" where
  "strategy2 pg =
     (case query pg RoleButtonApply of
        Inl e \<Rightarrow> Inl e
      | Inr [] \<Rightarrow> Inr None
      | Inr (el # els) \<Rightarrow>
          (case el_visible el of
             Inr True \<Rightarrow> Inr (Some (Handle RoleButtonApply 0))
           | _ \<Rightarrow> Inr None))"

text \<open>Strategy 3: \<^verbatim>\<open>for i in range(loc.count())\<close> over the elements of one locator.\<close>

fun strategy3_scan :: "locator \<Rightarrow> element list \<Rightarrow> nat \<Rightarrow> apply_btn option" where
  "strategy3_scan loc [] i = None"
| "strategy3_scan loc (el # els) i =
     (case el_visible el of
        Inr True \<Rightarrow>
          (case el_text el of
             Inr t \<Rightarrow>
               if re_search EASY_APPLY_TEXT (py_strip t)
                  \<or> (contains (py_lower (py_strip t)) ''apply''
                      \<and> \<not> contains (py_lower (py_strip t)) ''login'')
               then Some (Handle loc i) else strategy3_scan loc els (Suc i)
           | Inl e \<Rightarrow> strategy3_scan loc els (Suc i))
      | _ \<Rightarrow> strategy3_scan loc els (Suc i))"

fun strategy3 :: "page \<Rightarrow> locator list \<Rightarrow> exn + apply_btn option" where
  "strategy3 pg [] = Inr None"
| "strategy3 pg (loc # locs) =
     (case query pg loc of
        Inl e \<Rightarrow> Inl e
      | Inr els \<Rightarrow>
          (case strategy3_scan loc els 0 of
             Some b \<Rightarrow> Inr (Some b)
           | None \<Rightarrow> strategy3 pg locs))"

definition find_apply_button_anywhere :: "page \<Rightarrow> exn + apply_btn option" where
  "find_apply_button_anywhere pg =
     (case first_some (strategy0_try pg) [TestIdApply, AnchorTestIdApply, WizardLink] of
        Some b \<Rightarrow> Inr (Some b)
      | None \<Rightarrow>
          (case first_some (strategy1_try pg)
                  [RoleLinkApply, AnchorSpanEasyApply, TextEasyApplyExact, TextApplyPattern,
                   SpanEasyApply, FlexEasyApply] of
             Some b \<Rightarrow> Inr (Some b)
           | None \<Rightarrow>
               (case strategy2 pg of
                  Inl e \<Rightarrow> Inl e
                | Inr (Some b) \<Rightarrow> Inr (Some b)
                | Inr None \<Rightarrow> strategy3 pg [ButtonApplyPattern, ButtonApplyWord])))"

text \<open>The buttons inside one web component: the text is tested before the visibility.\<close>

fun host_scan :: "locator \<Rightarrow> element list \<Rightarrow> nat \<Rightarrow> apply_btn option" where
  "host_scan buttons [] i = None"
| "host_scan buttons (el # els) i =
     (case el_text el of
        Inr t \<Rightarrow>
          if re_search EASY_APPLY_TEXT (py_strip t)
             \<or> (py_strip t \<noteq> [] \<and> contains (py_lower (py_strip t)) ''apply'')
          then (case el_visible el of
                  Inr True \<Rightarrow> Some (Handle buttons i)
                | _ \<Rightarrow> host_scan buttons els (Suc i))
          else host_scan buttons els (Suc i)
      | Inl e \<Rightarrow> host_scan buttons els (Suc i))"

fun host_buttons :: "page \<Rightarrow> string \<Rightarrow> string list \<Rightarrow> exn + apply_btn option" where
  "host_buttons pg host_selector [] = Inr None"
| "host_buttons pg host_selector (btn_selector # btn_selectors) =
     (case query pg (HostButtons host_selector btn_selector) of
        Inl e \<Rightarrow> Inl e
      | Inr els \<Rightarrow>
          (case host_scan (HostButtons host_selector btn_selector) els 0 of
             Some b \<Rightarrow> Inr (Some b)
           | None \<Rightarrow> host_buttons pg host_selector btn_selectors))"

fun apply_hosts :: "page \<Rightarrow> string list \<Rightarrow> exn + apply_btn option" where
  "apply_hosts pg [] = Inr None"
| "apply_hosts pg (host_selector # host_selectors) =
     (case wait_for_selector pg (Host host_selector) of
        Inl PWTimeoutError \<Rightarrow> apply_hosts pg host_selectors
      | Inl e \<Rightarrow> Inl e
      | Inr u \<Rightarrow>
          (case host_buttons pg host_selector [''button.btn-primary'', ''button''] of
             Inl e \<Rightarrow> Inl e
           | Inr (Some b) \<Rightarrow> Inr (Some b)
           | Inr None \<Rightarrow> apply_hosts pg host_selectors))"

text \<open>
  The last resort: the script that walks the shadow roots and clicks. It is an action,
  whatever it returns.
\<close>

definition js_walk :: "page \<Rightarrow> apply_btn option run" where
  "js_walk pg =
     (case evaluate_click_apply pg of
        Inr True \<Rightarrow> (Inr (Some JsClicked), [EvalClickApply])
      | _ \<Rightarrow> (Inr None, [EvalClickApply]))"

definition get_apply_button :: "page \<Rightarrow> apply_btn option run" where
  "get_apply_button pg =
     (case find_apply_button_anywhere pg of
        Inl e \<Rightarrow> (Inl e, [])
      | Inr (Some btn) \<Rightarrow> (Inr (Some btn), [])
      | Inr None \<Rightarrow>
          (case apply_hosts pg APPLY_HOST_SELECTORS of
             Inl e \<Rightarrow> (Inl e, [])
           | Inr (Some btn) \<Rightarrow> (Inr (Some btn), [])
           | Inr None \<Rightarrow> js_walk pg))"

section \<open>scrapeandapply.py: the application automator\<close>

text \<open>
  \<^verbatim>\<open>easy_apply_on_job\<close> looks at the page at several moments. An \<open>apply_script\<close>
  gives the page at each of them: when the function starts (\<open>at_open\<close>), at the
  \<open>i\<close>-th search for the apply control (\<open>at_poll i\<close>), when the control is clicked
  (\<open>at_click\<close>), at the \<open>i\<close>-th look for an opened form (\<open>at_form_poll i\<close>), at the
  first Next (\<open>at_next\<close>), at the Submit that may follow (\<open>at_submit\<close>), at the resume
  step (\<open>at_resume\<close>), at the Submit tried when there is no resume step
  (\<open>at_late_submit\<close>) and at the \<open>i\<close>-th round of the final loop (\<open>at_step i\<close>).
  The pages of a script are arbitrary, so a script is any behaviour of the site.
\<close>

record apply_script =
  at_open :: page
  at_poll :: "nat \<Rightarrow> page"
  at_click :: page
  at_form_poll :: "nat \<Rightarrow> page"
  at_next :: page
  at_submit :: page
  at_resume :: page
  at_late_submit :: page
  at_step :: "nat \<Rightarrow> page"

text \<open>
  \<^verbatim>\<open>for _ in range(easy_apply_wait_seconds)\<close>: \<open>n\<close> rounds are left and \<open>i\<close> is the
  round reached. The result is the button found, \<open>None\<close> after the last round.
\<close>

fun wait_for_apply_button :: "nat \<Rightarrow> (nat \<Rightarrow> page) \<Rightarrow> nat \<Rightarrow> apply_btn option run" where
  "wait_for_apply_button 0 polls i = ret None"
| "wait_for_apply_button (Suc n) polls i =
     and_then (get_apply_button (polls i))
       (\<lambda>easy_btn. case easy_btn of
           Some btn \<Rightarrow> ret (Some btn)
         | None \<Rightarrow> wait_for_apply_button n polls (Suc i))"

text \<open>The fallback after a failed click: the first host that is on the page.\<close>

fun shadow_click :: "page \<Rightarrow> string list \<Rightarrow> unit run" where
  "shadow_click pg [] = ret ()"
| "shadow_click pg (host_selector # host_selectors) =
     (case query pg (Host host_selector) of
        Inl e \<Rightarrow> (Inl e, [])
      | Inr [] \<Rightarrow> shadow_click pg host_selectors
      | Inr (el # els) \<Rightarrow>
          act (EvalShadowClick host_selector) (evaluate_shadow_click pg host_selector))"

definition click_apply :: "page \<Rightarrow> apply_btn \<Rightarrow> unit run" where
  "click_apply pg easy_btn =
     (case easy_btn of
        JsClicked \<Rightarrow> ret ()
      | Handle loc i \<Rightarrow>
          (case scroll_into_view pg loc i of
             Inl e \<Rightarrow> and_then (act (Scroll loc i) (Inr ()))
                        (\<lambda>u. shadow_click pg APPLY_HOST_SELECTORS)
           | Inr u \<Rightarrow>
               (case click pg loc i of
                  Inl e \<Rightarrow> and_then (and_then (act (Scroll loc i) (Inr ()))
                                       (\<lambda>u. act (Click loc i) (Inr ())))
                             (\<lambda>u. shadow_click pg APPLY_HOST_SELECTORS)
                | Inr u \<Rightarrow> and_then (act (Scroll loc i) (Inr ()))
                             (\<lambda>u. act (Click loc i) (Inr ())))))"

text \<open>\<^verbatim>\<open>for _ in range(12)\<close>: whether a sign of the opened form was seen.\<close>

definition form_indicator :: "page \<Rightarrow> exn + bool" where
  "form_indicator pg =
     (case first_shown pg
             [RoleButtonNext, RoleButtonSubmit, ButtonSpanNext, ButtonSpanSubmit, FileRemove] of
        Inl e \<Rightarrow> Inl e
      | Inr None \<Rightarrow> Inr False
      | Inr (Some loc) \<Rightarrow> Inr True)"

fun form_opened :: "nat \<Rightarrow> (nat \<Rightarrow> page) \<Rightarrow> nat \<Rightarrow> exn + bool" where
  "form_opened 0 polls i = Inr False"
| "form_opened (Suc n) polls i =
     (case form_indicator (polls i) of
        Inl e \<Rightarrow> Inl e
      | Inr True \<Rightarrow> Inr True
      | Inr False \<Rightarrow> form_opened n polls (Suc i))"

text \<open>The first Next: a \<^verbatim>\<open>try\<close> whose exceptions are dropped.\<close>

definition click_first_next :: "page \<Rightarrow> unit run" where
  "click_first_next pg =
     (case first_shown pg [RoleButtonNext, ButtonTypeNext, ButtonSpanNext] of
        Inr (Some next_loc) \<Rightarrow> (Inr (), [Click next_loc 0])
      | _ \<Rightarrow> (Inr (), []))"

text \<open>
  The Submit tried after the first Next, and again when there is no resume step: True
  when a Submit was clicked without an exception; an exception leaves the \<^verbatim>\<open>try\<close>.
\<close>

definition try_submit :: "page \<Rightarrow> bool run" where
  "try_submit pg =
     (case first_shown pg [RoleButtonSubmit, ButtonTypeSubmit, ButtonSpanSubmit] of
        Inr (Some submit_loc) \<Rightarrow>
          (case click pg submit_loc 0 of
             Inr u \<Rightarrow> (Inr True, [Click submit_loc 0])
           | Inl e \<Rightarrow> (Inr False, [Click submit_loc 0]))
      | _ \<Rightarrow> (Inr False, []))"

definition replace_resume :: "page \<Rightarrow> unit run" where
  "replace_resume pg =
     and_then (act (Click FileReplace 0) (click pg FileReplace 0))
       (\<lambda>u. and_then (observe (wait_for_selector pg FileUploadInput))
         (\<lambda>u. and_then (act SetInputFiles (set_input_files pg))
           (\<lambda>u. and_then (observe (wait_for_selector pg UploadSpan))
             (\<lambda>u. act (Click UploadSpan 0) (click pg UploadSpan 0)))))"

text \<open>\<^verbatim>\<open>for _ in range(6)\<close>: the steps until the submission.\<close>

fun step_loop :: "nat \<Rightarrow> (nat \<Rightarrow> page) \<Rightarrow> nat \<Rightarrow> bool run" where
  "step_loop 0 steps i = ret False"
| "step_loop (Suc n) steps i =
     and_then (observe (is_visible (steps i) StepSubmit))
       (\<lambda>submit_shown.
          if submit_shown
          then and_then (act (Click StepSubmit 0) (click (steps i) StepSubmit 0)) (\<lambda>u. ret True)
          else and_then (observe (is_visible (steps i) StepNext))
                 (\<lambda>next_shown.
                    if next_shown
                    then and_then (act (Click StepNext 0) (click (steps i) StepNext 0))
                           (\<lambda>u. step_loop n steps (Suc i))
                    else ret False))"

text \<open>
  The end of \<^verbatim>\<open>easy_apply_on_job\<close>, from the wait for the resume step: without a
  resume step (the wait timed out) a last Submit is tried; with one, the resume is
  replaced and the final loop runs.
\<close>

definition resume_and_steps :: "apply_script \<Rightarrow> bool run" where
  "resume_and_steps s =
     (case wait_for_selector (at_resume s) FileRemove of
        Inl PWTimeoutError \<Rightarrow> try_submit (at_late_submit s)
      | Inl e \<Rightarrow> (Inl e, [])
      | Inr u \<Rightarrow> and_then (replace_resume (at_resume s)) (\<lambda>u. step_loop 6 (at_step s) 0))"

text \<open>What \<^verbatim>\<open>easy_apply_on_job\<close> does once it has seen the form opened.\<close>

definition complete_form :: "apply_script \<Rightarrow> bool run" where
  "complete_form s =
     and_then (click_first_next (at_next s))
       (\<lambda>u. and_then (try_submit (at_submit s))
         (\<lambda>submitted. if submitted then ret True else resume_and_steps s))"

text \<open>The body of the \<^verbatim>\<open>try\<close> of \<^verbatim>\<open>easy_apply_on_job\<close>.\<close>

definition easy_apply_body :: "apply_script \<Rightarrow> string \<Rightarrow> bool \<Rightarrow> bool run" where
  "easy_apply_body s job_url already_on_page =
     and_then
       (if already_on_page then ret ()
        else and_then (act (Goto job_url) (goto (at_open s)))
               (\<lambda>u. observe (wait_for_load_state (at_open s))))
       (\<lambda>u.
          if \<not> has_contract_corp_to_corp (at_open s) then ret False
          else
            and_then (wait_for_apply_button 25 (at_poll s) 0)
              (\<lambda>easy_btn. case easy_btn of
                  None \<Rightarrow> ret False
                | Some btn \<Rightarrow>
                    and_then (click_apply (at_click s) btn)
                      (\<lambda>u. and_then (observe (form_opened 12 (at_form_poll s) 0))
                        (\<lambda>apply_form_opened.
                           if \<not> apply_form_opened then ret False
                           else complete_form s))))"

text \<open>
  \<^verbatim>\<open>easy_apply_on_job\<close>: every exception of the body is caught and gives False. The
  result is the outcome with the log of the actions made.
\<close>

definition easy_apply_on_job :: "apply_script \<Rightarrow> string \<Rightarrow> bool \<Rightarrow> bool \<times> action list" where
  "easy_apply_on_job s job_url already_on_page =
     (case easy_apply_body s job_url already_on_page of
        (Inl e, acts) \<Rightarrow> (False, acts)
      | (Inr applied, acts) \<Rightarrow> (applied, acts))"

section \<open>scrapeandapply.py: the orchestrator\<close>

text \<open>
  What the site and the reasoning service do for one posting: what
  \<^verbatim>\<open>scrape_job_description\<close> returns for it (title, description and full text; the
  function catches every exception and returns three strings), the service as it
  answers when this posting is judged, and the script of the apply flow.
\<close>

record posting =
  scraped :: "string \<times> string \<times> string"
  reasoning :: service
  flow :: apply_script

record config =
  API_KEY :: string
  RESUME_TEXT :: string

text \<open>The events of a run, in order, next to the store and the counter of the loop.\<close>

datatype event =
    Scraped string
  | ApiCall request
  | Browser action
  | Appended string

record world =
  seen_file :: store
  seen_links :: "string set"
  events :: "event list"
  submitted :: nat

text \<open>
  The three lines that end every branch of the loop body:
  \<^verbatim>\<open>append_seen_link(link)\<close>, \<^verbatim>\<open>seen_links.add(link)\<close> and the pause.
\<close>

definition mark_seen :: "string \<Rightarrow> world \<Rightarrow> world" where
  "mark_seen link w =
     w\<lparr> seen_file := append_seen_link link (seen_file w),
        seen_links := insert link (seen_links w),
        events := events w @ [Appended link] \<rparr>"

definition loop_body :: "config \<Rightarrow> (string \<Rightarrow> posting) \<Rightarrow> string \<Rightarrow> world \<Rightarrow> world" where
  "loop_body cfg site link w =
     (case scraped (site link) of
        (job_title, job_description, full_scraped_text) \<Rightarrow>
          let w1 = w\<lparr> events := events w @ [Scraped link] \<rparr> in
          if job_description = [] then mark_seen link w1
          else if \<not> has_contract_corp_to_corp_in_text (str_or full_scraped_text [])
          then mark_seen link w1
          else
            (case should_apply_to_job (reasoning (site link)) (API_KEY cfg) (RESUME_TEXT cfg)
                    (str_or job_title []) job_description of
               (yes, calls) \<Rightarrow>
                 let w2 = w1\<lparr> events := events w1 @ map ApiCall calls \<rparr> in
                 if \<not> yes then mark_seen link w2
                 else
                   (case easy_apply_on_job (flow (site link)) link True of
                      (applied, acts) \<Rightarrow>
                        let w3 = mark_seen link (w2\<lparr> events := events w2 @ map Browser acts \<rparr>)
                        in if applied then w3\<lparr> submitted := submitted w3 + 1 \<rparr> else w3)))"

text \<open>
  \<^verbatim>\<open>main\<close>: \<open>web\<close> is the listing site, \<open>login_result\<close> what launching the browser
  and \<^verbatim>\<open>login\<close> do (an exception there ends the run), \<open>site\<close> the postings and
  \<open>file\<close> the store when the run starts. The result is the state when the run ends.
\<close>

definition new_links_of :: "job list \<Rightarrow> string set \<Rightarrow> string list" where
  "new_links_of jobs seen = filter (\<lambda>lnk. lnk \<notin> seen) (map Job_Link jobs)"

definition main :: "config \<Rightarrow> web \<Rightarrow> exn + unit \<Rightarrow> (string \<Rightarrow> posting) \<Rightarrow> store \<Rightarrow> exn + world" where
  "main cfg web login_result site file =
     (case scrape_job_listings web of
        Inl e \<Rightarrow> Inl e
      | Inr (jobs, pages) \<Rightarrow>
          let start = \<lparr> seen_file = file, seen_links = load_seen_links file,
                        events = [], submitted = 0 \<rparr>;
              new_links = new_links_of jobs (seen_links start)
          in if new_links = [] then Inr start
             else (case login_result of
                     Inl e \<Rightarrow> Inl e
                   | Inr u \<Rightarrow> Inr (fold (loop_body cfg site) new_links start)))"

section \<open>Notions used to state the properties\<close>

text \<open>
  The actions \<^verbatim>\<open>easy_apply_on_job\<close> makes on the opened form: a click on one of the
  controls of the form, or giving the resume file. \<open>apply_locator\<close> holds of the
  locators the search for the apply control can return.
\<close>

definition form_locators :: "locator list" where
  "form_locators =
     [RoleButtonNext, ButtonTypeNext, ButtonSpanNext, RoleButtonSubmit, ButtonTypeSubmit,
      ButtonSpanSubmit, FileReplace, UploadSpan, StepSubmit, StepNext]"

fun form_action :: "action \<Rightarrow> bool" where
  "form_action (Click loc i) \<longleftrightarrow> loc \<in> set form_locators"
| "form_action SetInputFiles \<longleftrightarrow> True"
| "form_action a \<longleftrightarrow> False"

fun apply_locator :: "locator \<Rightarrow> bool" where
  "apply_locator (HostButtons host_selector btn_selector) \<longleftrightarrow> True"
| "apply_locator loc \<longleftrightarrow>
     loc \<in> set [TestIdApply, AnchorTestIdApply, WizardLink, RoleLinkApply, AnchorSpanEasyApply,
                 TextEasyApplyExact, TextApplyPattern, SpanEasyApply, FlexEasyApply,
                 RoleButtonApply, ButtonApplyPattern, ButtonApplyWord]"

text \<open>
  The search for the apply control as a list of strategies in the order the code tries
  them, and what trying a list in order means: the first strategy that finds a control or
  raises ends the search.
\<close>

definition apply_strategies :: "(page \<Rightarrow> exn + apply_btn option) list" where
  "apply_strategies =
     map (\<lambda>loc pg. Inr (strategy0_try pg loc)) [TestIdApply, AnchorTestIdApply, WizardLink] @
     map (\<lambda>loc pg. Inr (strategy1_try pg loc))
       [RoleLinkApply, AnchorSpanEasyApply, TextEasyApplyExact, TextApplyPattern,
        SpanEasyApply, FlexEasyApply] @
     [strategy2,
      \<lambda>pg. strategy3 pg [ButtonApplyPattern, ButtonApplyWord],
      \<lambda>pg. apply_hosts pg APPLY_HOST_SELECTORS,
      \<lambda>pg. fst (js_walk pg)]"

fun first_success :: "(page \<Rightarrow> exn + apply_btn option) list \<Rightarrow> page \<Rightarrow> exn + apply_btn option" where
  "first_success [] pg = Inr None"
| "first_success (strategy # strategies) pg =
     (case strategy pg of
        Inl e \<Rightarrow> Inl e
      | Inr (Some b) \<Rightarrow> Inr (Some b)
      | Inr None \<Rightarrow> first_success strategies pg)"

text \<open>The requests sent to the reasoning service and the links appended, among the events.\<close>

fun api_calls :: "event list \<Rightarrow> request list" where
  "api_calls [] = []"
| "api_calls (ApiCall r # evs) = r # api_calls evs"
| "api_calls (e # evs) = api_calls evs"

fun appended_links :: "event list \<Rightarrow> string list" where
  "appended_links [] = []"
| "appended_links (Appended link # evs) = link # appended_links evs"
| "appended_links (e # evs) = appended_links evs"

text \<open>
  A link that reads back from the store as it was written, and a store file to which a
  line can be appended.
\<close>

definition clean_link :: "string \<Rightarrow> bool" where
  "clean_link link \<longleftrightarrow>
     link \<noteq> [] \<and> py_strip link = link \<and> CHR 0x0A \<notin> set link \<and> CHR 0x0D \<notin> set link"

definition ends_with_newline :: "store \<Rightarrow> bool" where
  "ends_with_newline file \<longleftrightarrow>
     (case file of
        None \<Rightarrow> True
      | Some content \<Rightarrow> content = [] \<or> last content = CHR 0x0A \<or> last content = CHR 0x0D)"

text \<open>Position \<open>i\<close> of \<open>jobs\<close> holds the first job with its link, none of \<open>seen\<close>.\<close>

definition first_at :: "string set \<Rightarrow> job list \<Rightarrow> nat \<Rightarrow> bool" where
  "first_at seen jobs i \<longleftrightarrow>
     Job_Link (jobs ! i) \<notin> seen \<and> (\<forall>k<i. Job_Link (jobs ! k) \<noteq> Job_Link (jobs ! i))"

section \<open>Example inputs\<close>

text \<open>
  A listing of two pages where the link of the first job comes back on the second page
  under another title, and a listing whose page indicator does not parse.
\<close>

definition demo_web :: web where
  "demo_web =
     \<lparr> first_fetch = Inr \<lparr> status_code = 200, sections = [None, Some ''Page 1 of 2''], anchors = [] \<rparr>,
       page_fetch = (\<lambda>p.
         if p = 1 then Inr \<lparr> status_code = 200, sections = [],
                             anchors = [(''ML Engineer'', Some ''/job-detail/a''),
                                        (''No link'', None)] \<rparr>
         else if p = 2 then Inr \<lparr> status_code = 200, sections = [],
                             anchors = [(''Senior ML Engineer'', Some ''https://www.dice.com/job-detail/a''),
                                        (''Data Scientist'', Some ''/job-detail/b'')] \<rparr>
         else Inl OtherError) \<rparr>"

definition bare_web :: web where
  "bare_web =
     \<lparr> first_fetch = Inr \<lparr> status_code = 200, sections = [Some ''Page one of many''], anchors = [] \<rparr>,
       page_fetch = (\<lambda>p. Inl OtherError) \<rparr>"

text \<open>
  Pages: one that shows nothing and where every wait times out, and pages that show the
  given elements, all visible.
\<close>

definition blank_page :: page where
  "blank_page =
     \<lparr> query = (\<lambda>loc. Inr []),
       wait_for_selector = (\<lambda>loc. Inl PWTimeoutError),
       click = (\<lambda>loc i. Inr ()),
       scroll_into_view = (\<lambda>loc i. Inr ()),
       evaluate_click_apply = Inr False,
       evaluate_shadow_click = (\<lambda>host_selector. Inr ()),
       set_input_files = Inr (),
       goto = Inr (),
       wait_for_load_state = Inr () \<rparr>"

definition shown :: "string \<Rightarrow> element" where
  "shown t = \<lparr> el_visible = Inr True, el_text = Inr t \<rparr>"

definition page_with :: "(locator \<times> element list) list \<Rightarrow> page" where
  "page_with found =
     blank_page\<lparr> query := (\<lambda>loc. case map_of found loc of
                                     Some els \<Rightarrow> Inr els
                                   | None \<Rightarrow> Inr []) \<rparr>"

definition idle_script :: apply_script where
  "idle_script =
     \<lparr> at_open = blank_page, at_poll = (\<lambda>i. blank_page), at_click = blank_page,
       at_form_poll = (\<lambda>i. blank_page), at_next = blank_page, at_submit = blank_page,
       at_resume = blank_page, at_late_submit = blank_page, at_step = (\<lambda>i. blank_page) \<rparr>"

definition marker_page :: page where
  "marker_page = page_with [(MarkerDiv, [shown ''Contract Corp To Corp''])]"

definition apply_page :: page where
  "apply_page = page_with [(TestIdApply, [shown ''Easy Apply''])]"

definition decoy_page :: page where
  "decoy_page =
     page_with [(TestIdApply, [shown ''Apply'']), (TextEasyApplyExact, [shown ''Easy Apply''])]"

text \<open>
  Scripts: the apply control is there but the form never opens; no apply control ever
  appears; and a full run with a resume step, where the control appears at the fourth
  search, the form at the third look, and Submit after two Next.
\<close>

definition stuck_script :: apply_script where
  "stuck_script = idle_script\<lparr> at_open := marker_page, at_poll := (\<lambda>i. apply_page) \<rparr>"

definition no_button_script :: apply_script where
  "no_button_script = idle_script\<lparr> at_open := marker_page \<rparr>"

definition resume_script :: apply_script where
  "resume_script =
     idle_script\<lparr>
       at_open := marker_page,
       at_poll := (\<lambda>i. if i < 3 then blank_page else apply_page),
       at_form_poll := (\<lambda>i. if i < 2 then blank_page
                              else page_with [(FileRemove, [shown ''Replace''])]),
       at_resume := blank_page\<lparr> wait_for_selector := (\<lambda>loc. Inr ()) \<rparr>,
       at_step := (\<lambda>i. if i < 2 then page_with [(StepNext, [shown ''Next''])]
                         else page_with [(StepSubmit, [shown ''Submit'']),
                                         (StepNext, [shown ''Submit''])]) \<rparr>"

definition demo_config :: config where
  "demo_config = \<lparr> API_KEY = ''key'', RESUME_TEXT = ''Python, machine learning'' \<rparr>"

definition yes_service :: service where
  "yes_service = (\<lambda>api_key req. Inr (Some ''YES''))"

definition corp_text :: string where
  "corp_text = ''ML Engineer Contract Corp To Corp Remote''"

text \<open>
  A posting whose text has the marker and whose page has not: the marker element is
  missing from \<open>at_open\<close>.
\<close>

definition unmarked_posting :: posting where
  "unmarked_posting =
     \<lparr> scraped = (''ML Engineer'', ''Build and deploy models'', corp_text),
       reasoning = yes_service,
       flow = idle_script \<rparr>"

definition good_posting :: posting where
  "good_posting =
     \<lparr> scraped = (''ML Engineer'', ''Build and deploy models'', corp_text),
       reasoning = yes_service,
       flow = resume_script \<rparr>"

definition plain_posting :: posting where
  "plain_posting =
     \<lparr> scraped = (''ML Engineer'', ''Build and deploy models'', ''ML Engineer Full time''),
       reasoning = yes_service,
       flow = resume_script \<rparr>"

definition start_world :: world where
  "start_world = \<lparr> seen_file = None, seen_links = {}, events = [], submitted = 0 \<rparr>"

text \<open>A listing whose only link ends with a blank.\<close>

definition padded_web :: web where
  "padded_web =
     \<lparr> first_fetch = Inr \<lparr> status_code = 200, sections = [], anchors = [] \<rparr>,
       page_fetch = (\<lambda>p. Inr \<lparr> status_code = 200, sections = [],
                               anchors = [(''ML Engineer'', Some ''https://www.dice.com/job-detail/abc '')] \<rparr>) \<rparr>"

section \<open>Properties of the fit classifier\<close>

lemma dropWhile_all_space: "list_all py_isspace s \<Longrightarrow> dropWhile py_isspace s = []"
  by (induction s) auto

lemma py_strip_blank: "list_all py_isspace s \<Longrightarrow> py_strip s = []"
  by (simp add: py_strip_def dropWhile_all_space)

lemma py_strip_inside: "\<exists>ws rest. s = ws @ py_strip s @ rest \<and> list_all py_isspace ws"
proof -
  define d where "d = dropWhile py_isspace s"
  have "rev (dropWhile py_isspace (rev d)) @ rev (takeWhile py_isspace (rev d)) =
      rev (takeWhile py_isspace (rev d) @ dropWhile py_isspace (rev d))"
    by (simp only: rev_append)
  also have "\<dots> = d"
    by (simp only: takeWhile_dropWhile_id rev_rev_ident)
  finally have d: "d = py_strip s @ rev (takeWhile py_isspace (rev d))"
    by (simp only: py_strip_def d_def)
  have "s = takeWhile py_isspace s @ d"
    by (simp add: d_def)
  with d have "s = takeWhile py_isspace s @ py_strip s @ rev (takeWhile py_isspace (rev d))"
    by simp
  moreover have "list_all py_isspace (takeWhile py_isspace s)"
    by (auto simp: list_all_iff dest: set_takeWhileD)
  ultimately show ?thesis by blast
qed

lemma startswith_yes:
  assumes "startswith (py_upper t) ''YES''"
  shows "\<exists>a b c r. t = a # b # c # r \<and>
           upper_char a = CHR ''Y'' \<and> upper_char b = CHR ''E'' \<and> upper_char c = CHR ''S''"
proof -
  from assms have three: "take (Suc (Suc (Suc 0))) (map upper_char t) = ''YES''"
    by (simp add: startswith_def py_upper_def)
  then obtain a t1 where t: "t = a # t1" by (cases t) auto
  with three obtain b t2 where t1: "t1 = b # t2" by (cases t1) auto
  with three t obtain c r where t2: "t2 = c # r" by (cases t2) auto
  from three t t1 t2 show ?thesis by simp
qed

lemma yes_content:
  assumes "startswith (py_upper (py_strip (content_or_empty content))) ''YES''"
  shows "\<exists>reply ws a b c rest. content = Some reply \<and> reply = ws @ a # b # c # rest \<and>
           list_all py_isspace ws \<and>
           upper_char a = CHR ''Y'' \<and> upper_char b = CHR ''E'' \<and> upper_char c = CHR ''S''"
proof (cases content)
  case None
  with assms show ?thesis
    by (simp add: content_or_empty_def py_strip_def py_upper_def startswith_def)
next
  case (Some reply)
  with assms obtain a b c r where s: "py_strip reply = a # b # c # r"
    and u: "upper_char a = CHR ''Y''" "upper_char b = CHR ''E''" "upper_char c = CHR ''S''"
    using startswith_yes [of "py_strip reply"] by (auto simp: content_or_empty_def)
  obtain ws rest where "reply = ws @ py_strip reply @ rest" and ws: "list_all py_isspace ws"
    using py_strip_inside by blast
  with s have "reply = ws @ a # b # c # (r @ rest)" by simp
  with Some u ws show ?thesis by blast
qed





section \<open>Properties of the listing collector\<close>

subsection \<open>The de-duplication loop\<close>

lemma dedupe_acc: "dedupe seen deduped jobs = deduped @ dedupe seen [] jobs"
proof (induction jobs arbitrary: seen deduped)
  case Nil
  show ?case by simp
next
  case (Cons j jobs)
  show ?case
    using Cons.IH [of seen deduped] Cons.IH [of "insert (Job_Link j) seen" "deduped @ [j]"]
      Cons.IH [of "insert (Job_Link j) seen" "[j]"]
    by simp
qed

lemma first_at_Suc:
  "first_at seen (j # jobs) (Suc i) = first_at (insert (Job_Link j) seen) jobs i"
  unfolding first_at_def
  by (auto simp: less_Suc_eq_0_disj)

lemma first_at_0: "first_at seen (j # jobs) 0 \<longleftrightarrow> Job_Link j \<notin> seen"
  by (simp add: first_at_def)

lemma dedupe_first_at:
  "dedupe seen [] jobs = map (\<lambda>i. jobs ! i) (filter (first_at seen jobs) [0..<length jobs])"
proof (induction jobs arbitrary: seen)
  case Nil
  show ?case by simp
next
  case (Cons j jobs)
  have "[0..<Suc (length jobs)] = 0 # [Suc 0..<Suc (length jobs)]"
    by (rule upt_conv_Cons) simp
  then have upt: "[0..<length (j # jobs)] = 0 # map Suc [0..<length jobs]"
    by (simp only: map_Suc_upt length_Cons)
  have tl: "map (\<lambda>i. (j # jobs) ! i) (filter (first_at seen (j # jobs)) (map Suc [0..<length jobs]))
      = map (\<lambda>i. jobs ! i) (filter (first_at (insert (Job_Link j) seen) jobs) [0..<length jobs])"
    by (simp add: filter_map o_def first_at_Suc)
  show ?case
  proof (cases "Job_Link j \<in> seen")
    case True
    then have "insert (Job_Link j) seen = seen" by auto
    with True tl Cons.IH [of seen] show ?thesis
      unfolding upt by (simp add: first_at_0)
  next
    case False
    with tl Cons.IH [of "insert (Job_Link j) seen"] dedupe_acc [of "insert (Job_Link j) seen" "[j]" jobs]
    show ?thesis
      unfolding upt by (simp add: first_at_0)
  qed
qed

lemma distinct_dedupe: "distinct (map Job_Link (dedupe seen [] jobs)) \<and>
   set (map Job_Link (dedupe seen [] jobs)) = set (map Job_Link jobs) - seen"
proof (induction jobs arbitrary: seen)
  case Nil
  show ?case by simp
next
  case (Cons j jobs)
  show ?case
    using Cons.IH [of seen] Cons.IH [of "insert (Job_Link j) seen"]
      dedupe_acc [of "insert (Job_Link j) seen" "[j]" jobs]
    by auto
qed

subsection \<open>The page indicator\<close>

lemma py_int_error: "py_int s = Inl e \<Longrightarrow> e = ValueError"
  by (auto simp: py_int_def Let_def split: if_splits prod.splits)

lemma ints_of_error: "ints_of ns = Inl e \<Longrightarrow> e = ValueError"
  by (induction ns) (auto split: sum.splits dest: py_int_error)

lemma ints_of_map: "ints_of ns = Inr vs \<longleftrightarrow> map py_int ns = map Inr vs"
proof (induction ns arbitrary: vs)
  case Nil
  show ?case by auto
next
  case (Cons n ns)
  show ?case
  proof (cases "py_int n")
    case (Inl e)
    then show ?thesis by auto
  next
    case v: (Inr v)
    show ?thesis
    proof (cases "ints_of ns")
      case (Inl e)
      with Cons.IH have "\<And>us. map py_int ns \<noteq> map Inr us" by simp
      with v Inl show ?thesis by (auto simp: Cons_eq_map_conv)
    next
      case (Inr us)
      with Cons.IH [of us] have "map py_int ns = map Inr us" by simp
      with v Inr show ?thesis by (auto simp: Cons_eq_map_conv inj_map_eq_map)
    qed
  qed
qed

lemma parse_label_error: "parse_label label = Inl e \<Longrightarrow> e = ValueError"
  by (auto simp: parse_label_def unpack_pair_def split: sum.splits list.splits dest: ints_of_error)

lemma parse_label_pair:
  "parse_label label = Inr (a, b) \<longleftrightarrow> map py_int (label_tokens label) = [Inr a, Inr b]"
proof
  assume "parse_label label = Inr (a, b)"
  then have "ints_of (label_tokens label) = Inr [a, b]"
    by (auto simp: parse_label_def unpack_pair_def split: sum.splits list.splits)
  then show "map py_int (label_tokens label) = [Inr a, Inr b]"
    by (simp add: ints_of_map)
next
  assume "map py_int (label_tokens label) = [Inr a, Inr b]"
  then have "ints_of (label_tokens label) = Inr [a, b]"
    by (simp add: ints_of_map)
  then show "parse_label label = Inr (a, b)"
    by (simp add: parse_label_def unpack_pair_def)
qed

lemma get_total_pages_returns: "\<exists>n. get_total_pages html_sections = Inr n"
proof (cases "page_section html_sections")
  case None
  then show ?thesis by (simp add: get_total_pages_def)
next
  case (Some sec)
  show ?thesis
  proof (cases "parse_label (content_or_empty sec)")
    case (Inl e)
    then have "e = ValueError" by (rule parse_label_error)
    with Inl Some show ?thesis by (simp add: get_total_pages_def)
  next
    case (Inr pr)
    with Some show ?thesis by (cases pr) (simp add: get_total_pages_def)
  qed
qed

lemma get_total_pages_malformed:
  assumes "page_section html_sections = Some sec"
    and "\<not> (\<exists>a b. map py_int (label_tokens (content_or_empty sec)) = [Inr a, Inr b])"
  shows "get_total_pages html_sections = Inr 1"
proof (cases "parse_label (content_or_empty sec)")
  case (Inl e)
  then have "e = ValueError" by (rule parse_label_error)
  with Inl assms(1) show ?thesis by (simp add: get_total_pages_def)
next
  case (Inr pr)
  obtain a b where "pr = (a, b)" by (cases pr)
  with Inr assms(2) show ?thesis by (simp add: parse_label_pair)
qed

subsection \<open>Properties of the listing collector\<close>


lemmas eval_text = py_isspace_def py_strip_def startswith_def content_or_empty_def
  py_replace_def py_split_def is_digit_def digit_val_def digits_value_def py_int_def
lemmas eval_listing = label_has_page_def page_section_def label_tokens_def unpack_pair_def
  parse_label_def get_total_pages_def first_page_def scrape_job_listings_def


lemma first_at_empty:
  "first_at {} jobs = (\<lambda>i. \<forall>k<i. Job_Link (jobs ! k) \<noteq> Job_Link (jobs ! i))"
  by (simp add: fun_eq_iff first_at_def)

text \<open>
  C5. Whatever the result pages hold, the list \<^verbatim>\<open>scrape_job_listings\<close> returns has
  no link twice, has every link that was collected, and consists of exactly the collected
  entries that are the first with their link, in the order collected: so each link comes
  with the title of its first occurrence.
\<close>

theorem scrape_job_listings_dedup:
  assumes "scrape_job_listings w = Inr (deduped, pages)"
  shows "distinct (map Job_Link deduped) \<and>
     set (map Job_Link deduped) = set (map Job_Link (scrape_pages w pages [])) \<and>
     deduped =
       map (\<lambda>i. scrape_pages w pages [] ! i)
         (filter (\<lambda>i. \<forall>k<i. Job_Link (scrape_pages w pages [] ! k) \<noteq>
                             Job_Link (scrape_pages w pages [] ! i))
            [0..<length (scrape_pages w pages [])])"
proof -
  from assms have d: "deduped = dedupe {} [] (scrape_pages w pages [])"
    by (auto simp: scrape_job_listings_def split: sum.splits)
  show ?thesis
    unfolding d
    using distinct_dedupe [of "{}" "scrape_pages w pages []"]
      dedupe_first_at [of "{}" "scrape_pages w pages []"]
    by (simp add: first_at_empty)
qed

theorem scrape_job_listings_dedup_witness:
  "scrape_job_listings demo_web =
     Inr ([\<lparr> Job_Title = ''ML Engineer'', Job_Link = ''https://www.dice.com/job-detail/a'' \<rparr>,
           \<lparr> Job_Title = ''Data Scientist'', Job_Link = ''https://www.dice.com/job-detail/b'' \<rparr>],
          [1, 2]) \<and>
   scrape_pages demo_web [1, 2] [] =
     [\<lparr> Job_Title = ''ML Engineer'', Job_Link = ''https://www.dice.com/job-detail/a'' \<rparr>,
      \<lparr> Job_Title = ''Senior ML Engineer'', Job_Link = ''https://www.dice.com/job-detail/a'' \<rparr>,
      \<lparr> Job_Title = ''Data Scientist'', Job_Link = ''https://www.dice.com/job-detail/b'' \<rparr>] \<and>
   distinct (map Job_Link
     [\<lparr> Job_Title = ''ML Engineer'', Job_Link = ''https://www.dice.com/job-detail/a'' \<rparr>,
      \<lparr> Job_Title = ''Data Scientist'', Job_Link = ''https://www.dice.com/job-detail/b'' \<rparr>])"
proof -
  have p: "scrape_pages demo_web [1, 2] [] =
     [\<lparr> Job_Title = ''ML Engineer'', Job_Link = ''https://www.dice.com/job-detail/a'' \<rparr>,
      \<lparr> Job_Title = ''Senior ML Engineer'', Job_Link = ''https://www.dice.com/job-detail/a'' \<rparr>,
      \<lparr> Job_Title = ''Data Scientist'', Job_Link = ''https://www.dice.com/job-detail/b'' \<rparr>]"
    by (simp add: demo_web_def startswith_def)
  have t: "get_total_pages (first_page demo_web) = Inr 2"
    by (simp add: demo_web_def eval_text eval_listing)
  have u: "[1..2::int] = [1, 2]"
    by (simp add: upto_rec1)
  have r: "scrape_job_listings demo_web =
     Inr ([\<lparr> Job_Title = ''ML Engineer'', Job_Link = ''https://www.dice.com/job-detail/a'' \<rparr>,
           \<lparr> Job_Title = ''Data Scientist'', Job_Link = ''https://www.dice.com/job-detail/b'' \<rparr>],
          [1, 2])"
    by (simp only: scrape_job_listings_def t sum.case u p) simp
  from scrape_job_listings_dedup [OF r] p r show ?thesis by simp
qed

section \<open>Properties of the application automator\<close>

subsection \<open>Running one piece after another\<close>

lemma and_then_Inl [simp]: "and_then (Inl e, acts) f = (Inl e, acts)"
  by (simp add: and_then_def)

lemma and_then_Inr [simp]: "and_then (Inr x, acts) f = (fst (f x), acts @ snd (f x))"
  by (simp add: and_then_def split: prod.splits)

lemma and_then_ret [simp]: "and_then (ret x) f = f x"
  by (simp add: ret_def)

lemma fst_ret [simp]: "fst (ret x) = Inr x" and snd_ret [simp]: "snd (ret x) = []"
  by (simp_all add: ret_def)

lemma and_then_observe:
  "and_then (observe r) f = (case r of Inl e \<Rightarrow> (Inl e, []) | Inr x \<Rightarrow> f x)"
  by (simp add: observe_def split: sum.splits)

lemma and_then_act:
  "and_then (act a r) f =
     (case r of Inl e \<Rightarrow> (Inl e, [a]) | Inr x \<Rightarrow> (fst (f x), a # snd (f x)))"
  by (simp add: act_def split: sum.splits)

subsection \<open>The final loop\<close>

lemma step_loop_Suc:
  "step_loop (Suc n) steps i =
     (case is_visible (steps i) StepSubmit of
        Inl e \<Rightarrow> (Inl e, [])
      | Inr True \<Rightarrow>
          (case click (steps i) StepSubmit 0 of
             Inl e \<Rightarrow> (Inl e, [Click StepSubmit 0])
           | Inr u \<Rightarrow> (Inr True, [Click StepSubmit 0]))
      | Inr False \<Rightarrow>
          (case is_visible (steps i) StepNext of
             Inl e \<Rightarrow> (Inl e, [])
           | Inr False \<Rightarrow> (Inr False, [])
           | Inr True \<Rightarrow>
               (case click (steps i) StepNext 0 of
                  Inl e \<Rightarrow> (Inl e, [Click StepNext 0])
                | Inr u \<Rightarrow> (fst (step_loop n steps (Suc i)),
                            Click StepNext 0 # snd (step_loop n steps (Suc i))))))"
  by (simp add: and_then_observe and_then_act ret_def split: sum.splits bool.splits)

lemma step_loop_length: "length (snd (step_loop n steps i)) \<le> n"
proof (induction n arbitrary: i)
  case 0
  show ?case by simp
next
  case (Suc n)
  show ?case
    using Suc.IH [of "Suc i"]
    by (simp only: step_loop_Suc) (simp split: sum.splits bool.splits)
qed

lemma step_loop_window:
  "(\<forall>k<n. steps' (i + k) = steps (i + k)) \<Longrightarrow> step_loop n steps' i = step_loop n steps i"
proof (induction n arbitrary: i)
  case 0
  show ?case by simp
next
  case (Suc n)
  from Suc.prems have here: "steps' i = steps i"
    by (metis add.right_neutral zero_less_Suc)
  have "\<forall>k<n. steps' (Suc i + k) = steps (Suc i + k)"
  proof (intro allI impI)
    fix k assume "k < n"
    then have "Suc k < Suc n" by simp
    with Suc.prems have "steps' (i + Suc k) = steps (i + Suc k)" by blast
    then show "steps' (Suc i + k) = steps (Suc i + k)" by simp
  qed
  then have "step_loop n steps' (Suc i) = step_loop n steps (Suc i)"
    by (rule Suc.IH)
  then show ?case
    by (simp only: step_loop_Suc here)
qed

subsection \<open>The looks for the opened form\<close>

lemma first_hit_Suc:
  "(\<exists>k<Suc n. P (i + k) \<and> (\<forall>j<k. Q (i + j))) \<longleftrightarrow>
     P i \<or> (Q i \<and> (\<exists>k<n. P (Suc i + k) \<and> (\<forall>j<k. Q (Suc i + j))))"
  by (simp add: Ex_less_Suc2 All_less_Suc2) blast

lemma form_opened_iff:
  "form_opened n polls i = Inr True \<longleftrightarrow>
     (\<exists>k<n. form_indicator (polls (i + k)) = Inr True \<and>
            (\<forall>j<k. form_indicator (polls (i + j)) = Inr False))"
proof (induction n arbitrary: i)
  case 0
  show ?case by simp
next
  case (Suc n)
  have "(\<exists>k<Suc n. form_indicator (polls (i + k)) = Inr True \<and>
            (\<forall>j<k. form_indicator (polls (i + j)) = Inr False)) \<longleftrightarrow>
        form_indicator (polls i) = Inr True \<or>
        (form_indicator (polls i) = Inr False \<and>
         (\<exists>k<n. form_indicator (polls (Suc i + k)) = Inr True \<and>
            (\<forall>j<k. form_indicator (polls (Suc i + j)) = Inr False)))"
    by (rule first_hit_Suc [of n "\<lambda>m. form_indicator (polls m) = Inr True" i
          "\<lambda>m. form_indicator (polls m) = Inr False"])
  then show ?case
    using Suc.IH [of "Suc i"]
    by (cases "form_indicator (polls i)") (auto split: bool.splits)
qed

lemma form_never_opened:
  assumes "\<forall>i<n. form_indicator (polls i) \<noteq> Inr True"
  shows "form_opened n polls 0 \<noteq> Inr True"
proof
  assume "form_opened n polls 0 = Inr True"
  then obtain k where "k < n" and "form_indicator (polls (0 + k)) = Inr True"
    unfolding form_opened_iff by blast
  with assms show False by simp
qed

subsection \<open>What the search for the apply control returns\<close>

lemma first_some_origin: "first_some f xs = Some y \<Longrightarrow> \<exists>x\<in>set xs. f x = Some y"
  by (induction xs) (auto split: option.splits)

lemma strategy0_try_handle: "strategy0_try pg loc = Some b \<Longrightarrow> b = Handle loc 0"
  by (auto simp: strategy0_try_def split: sum.splits bool.splits list.splits if_splits)

lemma strategy1_try_handle: "strategy1_try pg loc = Some b \<Longrightarrow> b = Handle loc 0"
  by (auto simp: strategy1_try_def split: sum.splits bool.splits)

lemma strategy2_handle: "strategy2 pg = Inr (Some b) \<Longrightarrow> b = Handle RoleButtonApply 0"
  by (auto simp: strategy2_def split: sum.splits bool.splits list.splits)

lemma strategy3_scan_handle: "strategy3_scan loc els i = Some b \<Longrightarrow> \<exists>j. b = Handle loc j"
  by (induction els arbitrary: i) (auto split: sum.splits bool.splits if_splits)

lemma strategy3_handle:
  "strategy3 pg locs = Inr (Some b) \<Longrightarrow> \<exists>loc\<in>set locs. \<exists>j. b = Handle loc j"
  by (induction locs) (auto split: sum.splits option.splits dest!: strategy3_scan_handle)

lemma host_scan_handle: "host_scan loc els i = Some b \<Longrightarrow> \<exists>j. b = Handle loc j"
  by (induction els arbitrary: i) (auto split: sum.splits bool.splits if_splits)

lemma host_buttons_handle:
  "host_buttons pg h sels = Inr (Some b) \<Longrightarrow> \<exists>sel j. b = Handle (HostButtons h sel) j"
  by (induction sels) (auto split: sum.splits option.splits dest!: host_scan_handle)

lemma apply_hosts_handle:
  "apply_hosts pg hs = Inr (Some b) \<Longrightarrow> \<exists>h sel j. b = Handle (HostButtons h sel) j"
  by (induction hs)
    (auto simp del: host_buttons.simps split: sum.splits option.splits exn.splits
       dest!: host_buttons_handle)

lemma find_apply_button_anywhere_handle:
  assumes "find_apply_button_anywhere pg = Inr (Some b)"
  shows "\<exists>loc j. b = Handle loc j \<and> apply_locator loc"
proof (cases "first_some (strategy0_try pg) [TestIdApply, AnchorTestIdApply, WizardLink]")
  case (Some b0)
  with assms have "b = b0" by (simp add: find_apply_button_anywhere_def)
  with Some first_some_origin [OF Some] show ?thesis
    by (auto dest: strategy0_try_handle)
next
  case n0: None
  show ?thesis
  proof (cases "first_some (strategy1_try pg)
                  [RoleLinkApply, AnchorSpanEasyApply, TextEasyApplyExact, TextApplyPattern,
                   SpanEasyApply, FlexEasyApply]")
    case (Some b1)
    with assms n0 have "b = b1" by (simp add: find_apply_button_anywhere_def)
    with Some first_some_origin [OF Some] show ?thesis
      by (auto dest: strategy1_try_handle)
  next
    case n1: None
    from assms n0 n1
    have "strategy2 pg = Inr (Some b) \<or> strategy3 pg [ButtonApplyPattern, ButtonApplyWord] = Inr (Some b)"
      by (auto simp: find_apply_button_anywhere_def split: sum.splits option.splits)
    then show ?thesis
      by (auto simp del: strategy3.simps dest: strategy2_handle dest!: strategy3_handle)
  qed
qed

lemma get_apply_button_handle:
  assumes "fst (get_apply_button pg) = Inr (Some b)"
  shows "b = JsClicked \<or> (\<exists>loc j. b = Handle loc j \<and> apply_locator loc)"
proof -
  from assms have "find_apply_button_anywhere pg = Inr (Some b)
      \<or> apply_hosts pg APPLY_HOST_SELECTORS = Inr (Some b) \<or> b = JsClicked"
    by (auto simp: get_apply_button_def js_walk_def split: sum.splits option.splits bool.splits)
  then show ?thesis
    by (auto dest: find_apply_button_anywhere_handle dest!: apply_hosts_handle)
qed

lemma get_apply_button_log: "set (snd (get_apply_button pg)) \<subseteq> {EvalClickApply}"
  and get_apply_button_log_length: "length (snd (get_apply_button pg)) \<le> 1"
  by (auto simp: get_apply_button_def js_walk_def split: sum.splits option.splits bool.splits)

subsection \<open>The log up to the click on the apply control\<close>

lemma fst_and_then:
  "fst (and_then m f) = (case fst m of Inl e \<Rightarrow> Inl e | Inr x \<Rightarrow> fst (f x))"
  by (cases m) (auto simp: and_then_def split: sum.splits prod.splits)

lemma snd_and_then:
  "snd (and_then m f) = snd m @ (case fst m of Inl e \<Rightarrow> [] | Inr x \<Rightarrow> snd (f x))"
  by (cases m) (auto simp: and_then_def split: sum.splits prod.splits)

lemma apply_locator_not_form: "apply_locator loc \<Longrightarrow> loc \<notin> set form_locators"
  by (cases loc) (simp_all add: form_locators_def)

lemma wait_for_apply_button_log:
  "set (snd (wait_for_apply_button n polls i)) \<subseteq> {EvalClickApply}"
proof (induction n arbitrary: i)
  case 0
  show ?case by simp
next
  case (Suc n)
  show ?case
    using Suc.IH [of "Suc i"] get_apply_button_log [of "polls i"]
    by (auto simp: snd_and_then split: sum.splits option.splits)
qed

lemma wait_for_apply_button_length: "length (snd (wait_for_apply_button n polls i)) \<le> n"
proof (induction n arbitrary: i)
  case 0
  show ?case by simp
next
  case (Suc n)
  show ?case
    using Suc.IH [of "Suc i"] get_apply_button_log_length [of "polls i"]
    by (auto simp: snd_and_then split: sum.splits option.splits)
qed

lemma wait_for_apply_button_handle:
  "fst (wait_for_apply_button n polls i) = Inr (Some b) \<Longrightarrow>
   b = JsClicked \<or> (\<exists>loc j. b = Handle loc j \<and> apply_locator loc)"
proof (induction n arbitrary: i)
  case 0
  then show ?case by simp
next
  case (Suc n)
  show ?case
  proof (cases "fst (get_apply_button (polls i))")
    case (Inl e)
    with Suc.prems show ?thesis by (simp add: fst_and_then)
  next
    case (Inr r)
    show ?thesis
    proof (cases r)
      case None
      with Inr Suc.prems have "fst (wait_for_apply_button n polls (Suc i)) = Inr (Some b)"
        by (simp add: fst_and_then)
      then show ?thesis by (rule Suc.IH)
    next
      case (Some b')
      with Inr Suc.prems have "b' = b" by (simp add: fst_and_then)
      with Inr Some have "fst (get_apply_button (polls i)) = Inr (Some b)" by simp
      then show ?thesis by (rule get_apply_button_handle)
    qed
  qed
qed

lemma shadow_click_log:
  "\<not> list_ex form_action (snd (shadow_click pg hs)) \<and> length (snd (shadow_click pg hs)) \<le> 1"
  by (induction hs) (auto simp: act_def split: sum.splits list.splits)

lemma click_apply_log:
  assumes "b = JsClicked \<or> (\<exists>loc j. b = Handle loc j \<and> apply_locator loc)"
  shows "\<not> list_ex form_action (snd (click_apply pg b))"
  using assms shadow_click_log [of pg APPLY_HOST_SELECTORS]
  by (auto simp: click_apply_def snd_and_then fst_and_then act_def apply_locator_not_form
      split: sum.splits)

lemma click_apply_length: "length (snd (click_apply pg b)) \<le> 3"
  using shadow_click_log [of pg APPLY_HOST_SELECTORS]
  by (auto simp: click_apply_def snd_and_then fst_and_then act_def
      split: sum.splits apply_btn.splits)

lemma no_form_action_eval: "set acts \<subseteq> {EvalClickApply} \<Longrightarrow> \<not> list_ex form_action acts"
  by (induction acts) auto

lemma open_log:
  "\<not> list_ex form_action
      (snd (if already_on_page then ret ()
            else and_then (act (Goto job_url) (goto (at_open s)))
                   (\<lambda>u. observe (wait_for_load_state (at_open s)))))"
  by (auto simp: snd_and_then act_def observe_def split: sum.splits)

lemma form_not_opened_fails:
  assumes "\<forall>i<12. form_indicator (at_form_poll s i) \<noteq> Inr True"
  shows "\<not> fst (easy_apply_on_job s job_url already_on_page) \<and>
         \<not> list_ex form_action (snd (easy_apply_on_job s job_url already_on_page))"
proof -
  have closed: "form_opened 12 (at_form_poll s) 0 \<noteq> Inr True"
    using assms by (rule form_never_opened)
  define poll where "poll = wait_for_apply_button 25 (at_poll s) 0"
  have poll_log: "\<not> list_ex form_action (snd poll)"
    unfolding poll_def by (rule no_form_action_eval) (rule wait_for_apply_button_log)
  have click_log: "\<not> list_ex form_action (snd (click_apply (at_click s) b))"
    if "fst poll = Inr (Some b)" for b
    using that unfolding poll_def
    by (intro click_apply_log wait_for_apply_button_handle)
  have body: "fst (easy_apply_body s job_url already_on_page) \<noteq> Inr True \<and>
      \<not> list_ex form_action (snd (easy_apply_body s job_url already_on_page))"
    using closed poll_log click_log open_log [of already_on_page job_url s]
    unfolding easy_apply_body_def poll_def [symmetric]
    by (auto simp: fst_and_then snd_and_then and_then_observe
        split: sum.splits option.splits bool.splits)
  then show ?thesis
    by (auto simp: easy_apply_on_job_def split: prod.splits sum.splits)
qed

subsection \<open>The number of actions\<close>

lemma length_snd_and_then:
  assumes "length (snd m) \<le> a" and "\<And>x. length (snd (f x)) \<le> b"
  shows "length (snd (and_then m f)) \<le> a + b"
  using assms by (auto simp: snd_and_then add_mono split: sum.splits)

lemma step_loop_success:
  "fst (step_loop n steps i) = Inr True \<longleftrightarrow>
     (\<exists>k<n. (is_visible (steps (i + k)) StepSubmit = Inr True \<and>
              click (steps (i + k)) StepSubmit 0 = Inr ()) \<and>
            (\<forall>j<k. is_visible (steps (i + j)) StepSubmit = Inr False \<and>
                   is_visible (steps (i + j)) StepNext = Inr True \<and>
                   click (steps (i + j)) StepNext 0 = Inr ()))"
proof (induction n arbitrary: i)
  case 0
  show ?case by simp
next
  case (Suc n)
  have "(\<exists>k<Suc n. (is_visible (steps (i + k)) StepSubmit = Inr True \<and>
              click (steps (i + k)) StepSubmit 0 = Inr ()) \<and>
            (\<forall>j<k. is_visible (steps (i + j)) StepSubmit = Inr False \<and>
                   is_visible (steps (i + j)) StepNext = Inr True \<and>
                   click (steps (i + j)) StepNext 0 = Inr ())) \<longleftrightarrow>
        (is_visible (steps i) StepSubmit = Inr True \<and> click (steps i) StepSubmit 0 = Inr ()) \<or>
        ((is_visible (steps i) StepSubmit = Inr False \<and>
          is_visible (steps i) StepNext = Inr True \<and>
          click (steps i) StepNext 0 = Inr ()) \<and>
         (\<exists>k<n. (is_visible (steps (Suc i + k)) StepSubmit = Inr True \<and>
              click (steps (Suc i + k)) StepSubmit 0 = Inr ()) \<and>
            (\<forall>j<k. is_visible (steps (Suc i + j)) StepSubmit = Inr False \<and>
                   is_visible (steps (Suc i + j)) StepNext = Inr True \<and>
                   click (steps (Suc i + j)) StepNext 0 = Inr ())))"
    by (rule first_hit_Suc [of n
          "\<lambda>m. is_visible (steps m) StepSubmit = Inr True \<and> click (steps m) StepSubmit 0 = Inr ()"
          i
          "\<lambda>m. is_visible (steps m) StepSubmit = Inr False \<and>
               is_visible (steps m) StepNext = Inr True \<and>
               click (steps m) StepNext 0 = Inr ()"])
  then show ?case
    using Suc.IH [of "Suc i"]
    by (simp only: step_loop_Suc) (auto split: sum.splits bool.splits)
qed

lemma click_first_next_length: "length (snd (click_first_next pg)) \<le> 1"
  by (auto simp: click_first_next_def split: sum.splits option.splits)

lemma try_submit_length: "length (snd (try_submit pg)) \<le> 1"
  by (auto simp: try_submit_def split: sum.splits option.splits)

lemma replace_resume_length: "length (snd (replace_resume pg)) \<le> 3"
  by (auto simp: replace_resume_def snd_and_then fst_and_then act_def observe_def
      split: sum.splits)

lemma resume_and_steps_length: "length (snd (resume_and_steps s)) \<le> 9"
proof -
  have "length (snd (and_then (replace_resume (at_resume s)) (\<lambda>u. step_loop 6 (at_step s) 0)))
      \<le> 3 + 6"
    by (rule length_snd_and_then) (rule replace_resume_length, rule step_loop_length)
  then show ?thesis
    using try_submit_length [of "at_late_submit s"]
    by (auto simp: resume_and_steps_def split: sum.splits exn.splits)
qed

lemma complete_form_length: "length (snd (complete_form s)) \<le> 11"
proof -
  have "length (snd (and_then (try_submit (at_submit s))
          (\<lambda>submitted. if submitted then ret True else resume_and_steps s))) \<le> 1 + 9"
  proof (rule length_snd_and_then)
    show "length (snd (try_submit (at_submit s))) \<le> 1" by (rule try_submit_length)
    show "length (snd (if submitted then ret True else resume_and_steps s)) \<le> 9" for submitted
      by (simp add: resume_and_steps_length)
  qed
  then have "length (snd (complete_form s)) \<le> 1 + (1 + 9)"
    unfolding complete_form_def
    by (rule length_snd_and_then [OF click_first_next_length])
  then show ?thesis by simp
qed

lemma easy_apply_body_length: "length (snd (easy_apply_body s job_url already_on_page)) \<le> 40"
proof -
  have start: "length (snd (if already_on_page then ret ()
        else and_then (act (Goto job_url) (goto (at_open s)))
               (\<lambda>u. observe (wait_for_load_state (at_open s))))) \<le> 1"
    by (auto simp: snd_and_then act_def observe_def split: sum.splits)
  have form: "length (snd (and_then (observe (form_opened 12 (at_form_poll s) 0))
        (\<lambda>apply_form_opened. if \<not> apply_form_opened then ret False else complete_form s))) \<le> 0 + 11"
    by (rule length_snd_and_then) (simp_all add: observe_def complete_form_length)
  have clicked: "length (snd (and_then (click_apply (at_click s) btn)
        (\<lambda>u. and_then (observe (form_opened 12 (at_form_poll s) 0))
          (\<lambda>apply_form_opened. if \<not> apply_form_opened then ret False else complete_form s))))
      \<le> 3 + (0 + 11)" for btn
    by (rule length_snd_and_then) (rule click_apply_length, rule form)
  have found: "length (snd (case easy_btn of
        None \<Rightarrow> ret False
      | Some btn \<Rightarrow>
          and_then (click_apply (at_click s) btn)
            (\<lambda>u. and_then (observe (form_opened 12 (at_form_poll s) 0))
              (\<lambda>apply_form_opened. if \<not> apply_form_opened then ret False else complete_form s))))
      \<le> 14" for easy_btn
    using clicked by (cases easy_btn) simp_all
  have polled: "length (snd (and_then (wait_for_apply_button 25 (at_poll s) 0)
        (\<lambda>easy_btn. case easy_btn of
            None \<Rightarrow> ret False
          | Some btn \<Rightarrow>
              and_then (click_apply (at_click s) btn)
                (\<lambda>u. and_then (observe (form_opened 12 (at_form_poll s) 0))
                  (\<lambda>apply_form_opened.
                     if \<not> apply_form_opened then ret False else complete_form s))))) \<le> 25 + 14"
    by (rule length_snd_and_then) (rule wait_for_apply_button_length, rule found)
  have "length (snd (easy_apply_body s job_url already_on_page)) \<le> 1 + (25 + 14)"
    unfolding easy_apply_body_def
    by (rule length_snd_and_then) (rule start, use polled in simp)
  then show ?thesis by simp
qed

subsection \<open>The order of the search and its rounds\<close>

lemma first_success_map:
  "first_success (map (\<lambda>loc pg. Inr (f pg loc)) locs @ rest) pg =
     (case first_some (f pg) locs of Some b \<Rightarrow> Inr (Some b) | None \<Rightarrow> first_success rest pg)"
  by (induction locs) (auto split: option.splits)

lemma get_apply_button_order: "fst (get_apply_button pg) = first_success apply_strategies pg"
proof -
  have "first_success apply_strategies pg =
     (case first_some (strategy0_try pg) [TestIdApply, AnchorTestIdApply, WizardLink] of
        Some b \<Rightarrow> Inr (Some b)
      | None \<Rightarrow>
          (case first_some (strategy1_try pg)
                  [RoleLinkApply, AnchorSpanEasyApply, TextEasyApplyExact, TextApplyPattern,
                   SpanEasyApply, FlexEasyApply] of
             Some b \<Rightarrow> Inr (Some b)
           | None \<Rightarrow>
               first_success
                 [strategy2,
                  \<lambda>pg. strategy3 pg [ButtonApplyPattern, ButtonApplyWord],
                  \<lambda>pg. apply_hosts pg APPLY_HOST_SELECTORS,
                  \<lambda>pg. fst (js_walk pg)] pg))"
    unfolding apply_strategies_def
    by (simp only: first_success_map [of strategy0_try] first_success_map [of strategy1_try])
  also have "\<dots> = fst (get_apply_button pg)"
    by (simp add: get_apply_button_def find_apply_button_anywhere_def js_walk_def
        del: strategy3.simps apply_hosts.simps first_some.simps
        split: option.splits sum.splits bool.splits)
  finally show ?thesis by simp
qed

lemma strategy0_try_accepts:
  "strategy0_try pg loc = Some b \<longleftrightarrow>
     b = Handle loc 0 \<and>
     (\<exists>el els t. query pg loc = Inr (el # els) \<and> el_visible el = Inr True \<and>
        el_text el = Inr t \<and>
        (re_search EASY_APPLY_TEXT (py_strip t) \<or> contains (py_lower (py_strip t)) ''easy''))"
  by (auto simp: strategy0_try_def count_and_visible_def
      split: sum.splits bool.splits list.splits if_splits)

lemma strategy1_try_accepts:
  "strategy1_try pg loc = Some b \<longleftrightarrow> b = Handle loc 0 \<and> count_and_visible pg loc = Inr True"
  by (auto simp: strategy1_try_def split: sum.splits bool.splits)

lemma wait_for_apply_button_Suc:
  "fst (wait_for_apply_button (Suc n) polls i) =
     (case fst (get_apply_button (polls i)) of
        Inl e \<Rightarrow> Inl e
      | Inr (Some btn) \<Rightarrow> Inr (Some btn)
      | Inr None \<Rightarrow> fst (wait_for_apply_button n polls (Suc i)))"
  by (simp add: fst_and_then split: sum.splits option.splits)

lemma wait_for_apply_button_found:
  "fst (wait_for_apply_button n polls i) = Inr (Some b) \<longleftrightarrow>
     (\<exists>k<n. fst (get_apply_button (polls (i + k))) = Inr (Some b) \<and>
            (\<forall>j<k. fst (get_apply_button (polls (i + j))) = Inr None))"
proof (induction n arbitrary: i)
  case 0
  show ?case by simp
next
  case (Suc n)
  have "(\<exists>k<Suc n. fst (get_apply_button (polls (i + k))) = Inr (Some b) \<and>
            (\<forall>j<k. fst (get_apply_button (polls (i + j))) = Inr None)) \<longleftrightarrow>
        fst (get_apply_button (polls i)) = Inr (Some b) \<or>
        (fst (get_apply_button (polls i)) = Inr None \<and>
         (\<exists>k<n. fst (get_apply_button (polls (Suc i + k))) = Inr (Some b) \<and>
            (\<forall>j<k. fst (get_apply_button (polls (Suc i + j))) = Inr None)))"
    by (rule first_hit_Suc [of n "\<lambda>m. fst (get_apply_button (polls m)) = Inr (Some b)" i
          "\<lambda>m. fst (get_apply_button (polls m)) = Inr None"])
  then show ?case
    using Suc.IH [of "Suc i"]
    by (simp only: wait_for_apply_button_Suc) (auto split: sum.splits option.splits)
qed

lemma get_apply_button_none_log:
  "fst (get_apply_button pg) = Inr None \<Longrightarrow> get_apply_button pg = (Inr None, [EvalClickApply])"
  by (auto simp: get_apply_button_def js_walk_def split: sum.splits option.splits bool.splits)

lemma wait_for_apply_button_none:
  "(\<forall>k<n. fst (get_apply_button (polls (i + k))) = Inr None) \<Longrightarrow>
   wait_for_apply_button n polls i = (Inr None, replicate n EvalClickApply)"
proof (induction n arbitrary: i)
  case 0
  show ?case by (simp add: ret_def)
next
  case (Suc n)
  from Suc.prems have "fst (get_apply_button (polls (i + 0))) = Inr None" by blast
  then have here: "get_apply_button (polls i) = (Inr None, [EvalClickApply])"
    by (simp add: get_apply_button_none_log)
  have "\<forall>k<n. fst (get_apply_button (polls (Suc i + k))) = Inr None"
  proof (intro allI impI)
    fix k assume "k < n"
    then have "Suc k < Suc n" by simp
    with Suc.prems have "fst (get_apply_button (polls (i + Suc k))) = Inr None" by blast
    then show "fst (get_apply_button (polls (Suc i + k))) = Inr None" by simp
  qed
  then have "wait_for_apply_button n polls (Suc i) = (Inr None, replicate n EvalClickApply)"
    by (rule Suc.IH)
  with here show ?case by simp
qed

lemma easy_apply_no_button:
  assumes "has_contract_corp_to_corp (at_open s)"
    and "\<forall>k<25. fst (get_apply_button (at_poll s k)) = Inr None"
  shows "easy_apply_on_job s job_url True = (False, replicate 25 EvalClickApply)"
proof -
  from assms(2) have "\<forall>k<25. fst (get_apply_button (at_poll s (0 + k))) = Inr None"
    by (simp only: add_0)
  then have "wait_for_apply_button 25 (at_poll s) 0 = (Inr None, replicate 25 EvalClickApply)"
    by (rule wait_for_apply_button_none)
  with assms(1) show ?thesis
    by (simp add: easy_apply_on_job_def easy_apply_body_def ret_def)
qed

subsection \<open>Properties of the application automator\<close>






text \<open>
  C9. Whatever the site shows, \<^verbatim>\<open>easy_apply_on_job\<close> ends after at most 40 actions,
  and its final loop makes at most 6 clicks and looks at the first 6 rounds only. The
  loop ends with a submission exactly when, within these 6 rounds, a round shows Submit
  and clicks it after rounds that showed no Submit but a Next that was clicked. In a
  round that shows Submit, Submit is clicked whatever Next does; a round that shows
  neither ends the loop with False.
\<close>

theorem easy_apply_terminates_within_steps:
  "length (snd (easy_apply_on_job s job_url already_on_page)) \<le> 40 \<and>
   length (snd (step_loop 6 (at_step s) 0)) \<le> 6 \<and>
   (\<forall>steps'. (\<forall>k<6. steps' k = at_step s k) \<longrightarrow>
      step_loop 6 steps' 0 = step_loop 6 (at_step s) 0) \<and>
   (fst (step_loop 6 (at_step s) 0) = Inr True \<longleftrightarrow>
      (\<exists>k<6. (is_visible (at_step s k) StepSubmit = Inr True \<and>
               click (at_step s k) StepSubmit 0 = Inr ()) \<and>
              (\<forall>j<k. is_visible (at_step s j) StepSubmit = Inr False \<and>
                     is_visible (at_step s j) StepNext = Inr True \<and>
                     click (at_step s j) StepNext 0 = Inr ()))) \<and>
   (\<forall>n i. is_visible (at_step s i) StepSubmit = Inr True \<longrightarrow>
      step_loop (Suc n) (at_step s) i =
        (case click (at_step s i) StepSubmit 0 of Inl e \<Rightarrow> Inl e | Inr u \<Rightarrow> Inr True,
         [Click StepSubmit 0])) \<and>
   (\<forall>n i. is_visible (at_step s i) StepSubmit = Inr False \<and>
          is_visible (at_step s i) StepNext = Inr False \<longrightarrow>
      step_loop (Suc n) (at_step s) i = (Inr False, []))"
proof -
  have total: "length (snd (easy_apply_on_job s job_url already_on_page)) \<le> 40"
    using easy_apply_body_length [of s job_url already_on_page]
    by (auto simp: easy_apply_on_job_def split: prod.splits sum.splits)
  have window: "\<forall>steps'. (\<forall>k<6. steps' k = at_step s k) \<longrightarrow>
      step_loop 6 steps' 0 = step_loop 6 (at_step s) 0"
  proof (intro allI impI)
    fix steps' assume "\<forall>k<6. steps' k = at_step s k"
    then have "\<forall>k<6. steps' (0 + k) = at_step s (0 + k)" by simp
    then show "step_loop 6 steps' 0 = step_loop 6 (at_step s) 0"
      by (rule step_loop_window)
  qed
  have success: "fst (step_loop 6 (at_step s) 0) = Inr True \<longleftrightarrow>
      (\<exists>k<6. (is_visible (at_step s k) StepSubmit = Inr True \<and>
               click (at_step s k) StepSubmit 0 = Inr ()) \<and>
              (\<forall>j<k. is_visible (at_step s j) StepSubmit = Inr False \<and>
                     is_visible (at_step s j) StepNext = Inr True \<and>
                     click (at_step s j) StepNext 0 = Inr ()))"
    using step_loop_success [of 6 "at_step s" 0] by (simp only: add_0)
  have submit_first: "\<forall>n i. is_visible (at_step s i) StepSubmit = Inr True \<longrightarrow>
      step_loop (Suc n) (at_step s) i =
        (case click (at_step s i) StepSubmit 0 of Inl e \<Rightarrow> Inl e | Inr u \<Rightarrow> Inr True,
         [Click StepSubmit 0])"
    by (simp only: step_loop_Suc) (simp split: sum.splits)
  have none: "\<forall>n i. is_visible (at_step s i) StepSubmit = Inr False \<and>
          is_visible (at_step s i) StepNext = Inr False \<longrightarrow>
      step_loop (Suc n) (at_step s) i = (Inr False, [])"
    by (simp only: step_loop_Suc) simp
  have len: "length (snd (step_loop 6 (at_step s) 0)) \<le> 6"
    by (rule step_loop_length)
  show ?thesis
    by (intro conjI total len window success submit_first none)
qed

theorem easy_apply_terminates_within_steps_witness:
  "fst (step_loop 6 (at_step resume_script) 0) = Inr True \<and>
   step_loop (Suc 3) (at_step resume_script) 2 = (Inr True, [Click StepSubmit 0]) \<and>
   step_loop (Suc 5) (at_step idle_script) 0 = (Inr False, []) \<and>
   length (snd (easy_apply_on_job resume_script ''https://www.dice.com/job-detail/a'' True)) \<le> 40"
proof -
  note a = easy_apply_terminates_within_steps
    [of resume_script "''https://www.dice.com/job-detail/a''" True]
  note b = easy_apply_terminates_within_steps
    [of idle_script "''https://www.dice.com/job-detail/a''" True]
  have next_page: "is_visible (page_with [(StepNext, [shown ''Next''])]) StepSubmit = Inr False \<and>
      is_visible (page_with [(StepNext, [shown ''Next''])]) StepNext = Inr True \<and>
      click (page_with [(StepNext, [shown ''Next''])]) StepNext 0 = Inr ()"
    by code_simp
  have submit_page:
    "is_visible (page_with [(StepSubmit, [shown ''Submit'']), (StepNext, [shown ''Submit''])])
        StepSubmit = Inr True \<and>
     click (page_with [(StepSubmit, [shown ''Submit'']), (StepNext, [shown ''Submit''])])
        StepSubmit 0 = Inr ()"
    by code_simp
  have blank: "is_visible blank_page StepSubmit = Inr False \<and>
      is_visible blank_page StepNext = Inr False"
    by code_simp
  have third: "\<exists>k<6. (is_visible (at_step resume_script k) StepSubmit = Inr True \<and>
               click (at_step resume_script k) StepSubmit 0 = Inr ()) \<and>
              (\<forall>j<k. is_visible (at_step resume_script j) StepSubmit = Inr False \<and>
                     is_visible (at_step resume_script j) StepNext = Inr True \<and>
                     click (at_step resume_script j) StepNext 0 = Inr ())"
  proof (intro exI [of _ 2] conjI)
    show "(2::nat) < 6" by simp
    show "is_visible (at_step resume_script 2) StepSubmit = Inr True"
      by (simp add: resume_script_def idle_script_def submit_page)
    show "click (at_step resume_script 2) StepSubmit 0 = Inr ()"
      by (simp add: resume_script_def idle_script_def submit_page)
    show "\<forall>j<2. is_visible (at_step resume_script j) StepSubmit = Inr False \<and>
                     is_visible (at_step resume_script j) StepNext = Inr True \<and>
                     click (at_step resume_script j) StepNext 0 = Inr ()"
      by (simp add: resume_script_def idle_script_def next_page)
  qed
  from a third have c1: "fst (step_loop 6 (at_step resume_script) 0) = Inr True"
    by blast
  have v2: "is_visible (at_step resume_script 2) StepSubmit = Inr True"
    and k2: "click (at_step resume_script 2) StepSubmit 0 = Inr ()"
    by (simp_all add: resume_script_def idle_script_def submit_page)
  from a v2 have "step_loop (Suc 3) (at_step resume_script) 2 =
      (case click (at_step resume_script 2) StepSubmit 0 of Inl e \<Rightarrow> Inl e | Inr u \<Rightarrow> Inr True,
       [Click StepSubmit 0])"
    by blast
  then have c2: "step_loop (Suc 3) (at_step resume_script) 2 = (Inr True, [Click StepSubmit 0])"
    by (simp add: k2)
  have v0: "is_visible (at_step idle_script 0) StepSubmit = Inr False
      \<and> is_visible (at_step idle_script 0) StepNext = Inr False"
    by (simp add: idle_script_def blank)
  from b v0 have c3: "step_loop (Suc 5) (at_step idle_script) 0 = (Inr False, [])"
    by blast
  from a have c4: "length (snd (easy_apply_on_job resume_script
      ''https://www.dice.com/job-detail/a'' True)) \<le> 40"
    by blast
  from c1 c2 c3 c4 show ?thesis by (intro conjI)
qed

section \<open>Properties of the orchestrator\<close>

subsection \<open>The events of the loop\<close>

lemma appended_links_append: "appended_links (xs @ ys) = appended_links xs @ appended_links ys"
  by (induction xs rule: appended_links.induct) simp_all

lemma appended_links_api: "appended_links (map ApiCall calls) = []"
  by (induction calls) simp_all

lemma appended_links_browser: "appended_links (map Browser acts) = []"
  by (induction acts) simp_all

lemma api_calls_append: "api_calls (xs @ ys) = api_calls xs @ api_calls ys"
  by (induction xs rule: api_calls.induct) simp_all

lemma api_calls_api: "api_calls (map ApiCall calls) = calls"
  by (induction calls) simp_all

lemma api_calls_browser: "api_calls (map Browser acts) = []"
  by (induction acts) simp_all

lemma str_or_empty: "str_or x [] = x"
  by (simp add: str_or_def)

lemma loop_body_events:
  "\<exists>calls acts. events (loop_body cfg site link w) =
     events w @ [Scraped link] @ map ApiCall calls @ map Browser acts @ [Appended link]"
proof -
  obtain t d f where sc: "scraped (site link) = (t, d, f)"
    by (cases "scraped (site link)")
  obtain yes calls where sa: "should_apply_to_job (reasoning (site link)) (API_KEY cfg)
      (RESUME_TEXT cfg) t d = (yes, calls)"
    by (cases "should_apply_to_job (reasoning (site link)) (API_KEY cfg) (RESUME_TEXT cfg) t d")
  obtain applied acts where ea: "easy_apply_on_job (flow (site link)) link True = (applied, acts)"
    by (cases "easy_apply_on_job (flow (site link)) link True")
  consider (skipped) "d = [] \<or> \<not> has_contract_corp_to_corp_in_text f"
    | (refused) "d \<noteq> []" "has_contract_corp_to_corp_in_text f" "\<not> yes"
    | (tried) "d \<noteq> []" "has_contract_corp_to_corp_in_text f" "yes"
    by blast
  then show ?thesis
  proof cases
    case skipped
    then have "events (loop_body cfg site link w) =
        events w @ [Scraped link] @ map ApiCall [] @ map Browser [] @ [Appended link]"
      by (auto simp: loop_body_def mark_seen_def Let_def sc str_or_empty)
    then show ?thesis by blast
  next
    case refused
    then have "events (loop_body cfg site link w) =
        events w @ [Scraped link] @ map ApiCall calls @ map Browser [] @ [Appended link]"
      by (simp add: loop_body_def mark_seen_def Let_def sc sa str_or_empty)
    then show ?thesis by blast
  next
    case tried
    then have "events (loop_body cfg site link w) =
        events w @ [Scraped link] @ map ApiCall calls @ map Browser acts @ [Appended link]"
      by (simp add: loop_body_def mark_seen_def Let_def sc sa ea str_or_empty)
    then show ?thesis by blast
  qed
qed

lemma loop_body_seen_file:
  "seen_file (loop_body cfg site link w) = append_seen_link link (seen_file w)"
  by (simp add: loop_body_def mark_seen_def Let_def split: prod.splits)

lemma loop_body_appended:
  "appended_links (events (loop_body cfg site link w)) = appended_links (events w) @ [link]"
proof -
  obtain calls acts where "events (loop_body cfg site link w) =
     events w @ [Scraped link] @ map ApiCall calls @ map Browser acts @ [Appended link]"
    using loop_body_events by blast
  then show ?thesis
    by (simp add: appended_links_append appended_links_api appended_links_browser)
qed

lemma fold_loop_body_appended:
  "appended_links (events (fold (loop_body cfg site) links w)) = appended_links (events w) @ links"
  by (induction links arbitrary: w) (simp_all add: loop_body_appended)

lemma fold_loop_body_seen_file:
  "seen_file (fold (loop_body cfg site) links w) = fold append_seen_link links (seen_file w)"
  by (induction links arbitrary: w) (simp_all add: loop_body_seen_file)

lemma scrape_job_listings_distinct:
  "scrape_job_listings web = Inr (jobs, pages) \<Longrightarrow> distinct (map Job_Link jobs)"
  using distinct_dedupe [of "{}"]
  by (auto simp: scrape_job_listings_def split: sum.splits)

lemma main_appended:
  assumes "main cfg web login_result site file = Inr w'"
  shows "distinct (appended_links (events w')) \<and>
         seen_file w' = fold append_seen_link (appended_links (events w')) file"
proof -
  from assms obtain jobs pages where sj: "scrape_job_listings web = Inr (jobs, pages)"
    by (auto simp: main_def split: sum.splits)
  define new_links where "new_links = new_links_of jobs (load_seen_links file)"
  define start where "start = \<lparr> seen_file = file, seen_links = load_seen_links file,
      events = [], submitted = 0 \<rparr>"
  have d: "distinct new_links"
    using scrape_job_listings_distinct [OF sj]
    by (simp add: new_links_def new_links_of_def distinct_map_filter)
  from assms sj have "w' = fold (loop_body cfg site) new_links start"
    by (auto simp: main_def Let_def new_links_def start_def split: sum.splits if_splits)
  then have "appended_links (events w') = new_links"
    and "seen_file w' = fold append_seen_link new_links file"
    by (simp_all add: fold_loop_body_appended fold_loop_body_seen_file start_def)
  with d show ?thesis by simp
qed

subsection \<open>The calls to the reasoning service\<close>

lemma loop_body_no_call:
  assumes "scraped (site link) = (title, description, full_text)"
    and "description = [] \<or> \<not> has_contract_corp_to_corp_in_text full_text"
  shows "api_calls (events (loop_body cfg site link w)) = api_calls (events w)"
  using assms
  by (auto simp: loop_body_def mark_seen_def Let_def str_or_empty api_calls_append)

lemma loop_body_calls:
  assumes "scraped (site link) = (title, description, full_text)"
    and "description \<noteq> []" and "has_contract_corp_to_corp_in_text full_text"
  shows "api_calls (events (loop_body cfg site link w)) =
     api_calls (events w) @
     snd (should_apply_to_job (reasoning (site link)) (API_KEY cfg) (RESUME_TEXT cfg)
            title description)"
  using assms
  by (simp add: loop_body_def mark_seen_def Let_def str_or_empty api_calls_append
      api_calls_api api_calls_browser split: prod.splits)

lemma should_apply_to_job_one_call:
  "\<not> (py_strip job_title = [] \<and> py_strip job_description = []) \<Longrightarrow>
   length (snd (should_apply_to_job svc api_key resume_text job_title job_description)) = 1"
  by (auto simp: should_apply_to_job_def Let_def split: sum.splits)

lemma easy_apply_no_marker:
  "\<not> has_contract_corp_to_corp (at_open s) \<Longrightarrow> easy_apply_on_job s job_url True = (False, [])"
  by (simp add: easy_apply_on_job_def easy_apply_body_def ret_def)

lemma loop_body_frame:
  assumes "scraped (site link) = (title, description, full_text)"
    and "description = [] \<or> \<not> has_contract_corp_to_corp_in_text full_text \<or>
         \<not> fst (should_apply_to_job (reasoning (site link)) (API_KEY cfg) (RESUME_TEXT cfg)
                  title description)"
  shows "loop_body cfg (\<lambda>l. (site l)\<lparr> flow := f \<rparr>) link w = loop_body cfg site link w"
  using assms
  by (auto simp: loop_body_def Let_def str_or_empty split: prod.splits)

subsection \<open>Properties of the orchestrator\<close>




text \<open>
  C3. Whatever a posting does, the events of its turn in the loop are its scrape, the
  calls to the reasoning service and the browser actions, and then, last, one append of
  its link to the store; the store file grows by this link. Over a list of links the
  appends are the links in order, and a run of \<^verbatim>\<open>main\<close> that ends normally has
  appended each link it processed once.
\<close>

theorem link_appended_once:
  "(\<exists>calls acts. events (loop_body cfg site link w) =
      events w @ [Scraped link] @ map ApiCall calls @ map Browser acts @ [Appended link]) \<and>
   seen_file (loop_body cfg site link w) = append_seen_link link (seen_file w) \<and>
   appended_links (events (fold (loop_body cfg site) links w)) =
     appended_links (events w) @ links \<and>
   seen_file (fold (loop_body cfg site) links w) = fold append_seen_link links (seen_file w) \<and>
   (main cfg web login_result site file = Inr w' \<longrightarrow>
      distinct (appended_links (events w')) \<and>
      seen_file w' = fold append_seen_link (appended_links (events w')) file)"
proof -
  have run: "main cfg web login_result site file = Inr w' \<longrightarrow>
      distinct (appended_links (events w')) \<and>
      seen_file w' = fold append_seen_link (appended_links (events w')) file"
    using main_appended by blast
  show ?thesis
    by (intro conjI loop_body_events loop_body_seen_file fold_loop_body_appended
        fold_loop_body_seen_file run)
qed

theorem link_appended_once_witness:
  "main demo_config demo_web (Inr ()) (\<lambda>l. good_posting) None =
     Inr (fold (loop_body demo_config (\<lambda>l. good_posting))
            [''https://www.dice.com/job-detail/a'', ''https://www.dice.com/job-detail/b'']
            start_world) \<and>
   appended_links (events (fold (loop_body demo_config (\<lambda>l. good_posting))
       [''https://www.dice.com/job-detail/a'', ''https://www.dice.com/job-detail/b'']
       start_world)) =
     [''https://www.dice.com/job-detail/a'', ''https://www.dice.com/job-detail/b''] \<and>
   seen_file (fold (loop_body demo_config (\<lambda>l. good_posting))
       [''https://www.dice.com/job-detail/a'', ''https://www.dice.com/job-detail/b'']
       start_world) =
     Some (''https://www.dice.com/job-detail/a'' @ [CHR 0x0A] @
           ''https://www.dice.com/job-detail/b'' @ [CHR 0x0A])"
proof -
  have listing: "scrape_job_listings demo_web =
     Inr ([\<lparr> Job_Title = ''ML Engineer'', Job_Link = ''https://www.dice.com/job-detail/a'' \<rparr>,
           \<lparr> Job_Title = ''Data Scientist'', Job_Link = ''https://www.dice.com/job-detail/b'' \<rparr>],
          [1, 2])"
    by code_simp
  have m: "main demo_config demo_web (Inr ()) (\<lambda>l. good_posting) None =
     Inr (fold (loop_body demo_config (\<lambda>l. good_posting))
            [''https://www.dice.com/job-detail/a'', ''https://www.dice.com/job-detail/b'']
            start_world)"
    by (simp add: main_def listing load_seen_links_def new_links_of_def start_world_def)
  note a = link_appended_once [of demo_config "\<lambda>l. good_posting"
      "''https://www.dice.com/job-detail/a''" start_world
      "[''https://www.dice.com/job-detail/a'', ''https://www.dice.com/job-detail/b'']"]
  have e: "appended_links (events start_world) = []" and f: "seen_file start_world = None"
    by (simp_all add: start_world_def)
  from a
  have "appended_links (events (fold (loop_body demo_config (\<lambda>l. good_posting))
       [''https://www.dice.com/job-detail/a'', ''https://www.dice.com/job-detail/b'']
       start_world)) =
     appended_links (events start_world) @
     [''https://www.dice.com/job-detail/a'', ''https://www.dice.com/job-detail/b'']"
    by blast
  with e
  have c2: "appended_links (events (fold (loop_body demo_config (\<lambda>l. good_posting))
       [''https://www.dice.com/job-detail/a'', ''https://www.dice.com/job-detail/b'']
       start_world)) =
     [''https://www.dice.com/job-detail/a'', ''https://www.dice.com/job-detail/b'']"
    by simp
  from a
  have "seen_file (fold (loop_body demo_config (\<lambda>l. good_posting))
       [''https://www.dice.com/job-detail/a'', ''https://www.dice.com/job-detail/b'']
       start_world) =
     fold append_seen_link
       [''https://www.dice.com/job-detail/a'', ''https://www.dice.com/job-detail/b'']
       (seen_file start_world)"
    by blast
  with f
  have c3: "seen_file (fold (loop_body demo_config (\<lambda>l. good_posting))
       [''https://www.dice.com/job-detail/a'', ''https://www.dice.com/job-detail/b'']
       start_world) =
     Some (''https://www.dice.com/job-detail/a'' @ [CHR 0x0A] @
           ''https://www.dice.com/job-detail/b'' @ [CHR 0x0A])"
    by (simp add: append_seen_link_def content_or_empty_def)
  from m c2 c3 show ?thesis by (intro conjI)
qed

text \<open>
  C4. A link that ends with a blank is written to the store as it is and read back
  stripped, so the next run does not find it among the seen links and processes it
  again: the first run leaves the link in the file, the file read back gives the stripped
  link, and a second run on that file and the same listing appends the link once more.
\<close>

theorem second_run_reprocesses_padded_link:
  "map_sum id seen_file (main demo_config padded_web (Inr ()) (\<lambda>l. plain_posting) None) =
     Inr (Some (''https://www.dice.com/job-detail/abc '' @ [CHR 0x0A])) \<and>
   load_seen_links (Some (''https://www.dice.com/job-detail/abc '' @ [CHR 0x0A])) =
     {''https://www.dice.com/job-detail/abc''} \<and>
   map_sum id (\<lambda>w. appended_links (events w))
     (main demo_config padded_web (Inr ()) (\<lambda>l. plain_posting)
        (Some (''https://www.dice.com/job-detail/abc '' @ [CHR 0x0A]))) =
     Inr [''https://www.dice.com/job-detail/abc '']"
  by code_simp

section \<open>Properties of the processed-link store\<close>

lemma lines_from_break:
  "c = CHR 0x0A \<or> c = CHR 0x0D \<Longrightarrow>
   lines_from cur (xs @ c # ys) = lines_from cur (xs @ [c]) @ lines_from [] ys"
  by (induction xs arbitrary: cur) auto

lemma lines_from_line:
  "CHR 0x0A \<notin> set l \<Longrightarrow> CHR 0x0D \<notin> set l \<Longrightarrow> lines_from cur (l @ [CHR 0x0A]) = [cur @ l]"
  by (induction l arbitrary: cur) auto

lemma file_lines_append:
  assumes "ends_with_newline (Some content)" and "CHR 0x0A \<notin> set l" and "CHR 0x0D \<notin> set l"
  shows "file_lines (content @ l @ [CHR 0x0A]) = file_lines content @ [l]"
proof (cases "content = []")
  case True
  with assms show ?thesis by (simp add: file_lines_def lines_from_line)
next
  case False
  then obtain xs c where content: "content = xs @ [c]"
    by (metis append_butlast_last_id)
  with assms(1) False have c: "c = CHR 0x0A \<or> c = CHR 0x0D"
    by (simp add: ends_with_newline_def)
  have "lines_from [] (xs @ c # (l @ [CHR 0x0A])) =
      lines_from [] (xs @ [c]) @ lines_from [] (l @ [CHR 0x0A])"
    using c by (rule lines_from_break)
  with assms(2,3) show ?thesis
    by (simp add: file_lines_def content lines_from_line)
qed

lemma load_append_clean:
  assumes "ends_with_newline seen" and "clean_link link"
  shows "load_seen_links (append_seen_link link seen) = insert link (load_seen_links seen)"
    and "ends_with_newline (append_seen_link link seen)"
proof -
  from assms(2) have l: "link \<noteq> []" "py_strip link = link"
    "CHR 0x0A \<notin> set link" "CHR 0x0D \<notin> set link"
    by (simp_all add: clean_link_def)
  show "ends_with_newline (append_seen_link link seen)"
    by (simp add: ends_with_newline_def append_seen_link_def)
  show "load_seen_links (append_seen_link link seen) = insert link (load_seen_links seen)"
  proof (cases seen)
    case None
    with l show ?thesis
      by (simp add: load_seen_links_def append_seen_link_def content_or_empty_def
          file_lines_def lines_from_line)
  next
    case (Some content)
    with assms(1) have "file_lines (content @ link @ [CHR 0x0A]) = file_lines content @ [link]"
      using l(3,4) by (intro file_lines_append) simp_all
    with Some l show ?thesis
      by (auto simp: load_seen_links_def append_seen_link_def content_or_empty_def)
  qed
qed

lemma load_fold_append_clean:
  "ends_with_newline seen \<Longrightarrow> \<forall>link\<in>set links. clean_link link \<Longrightarrow>
   load_seen_links (fold append_seen_link links seen) = load_seen_links seen \<union> set links"
proof (induction links arbitrary: seen)
  case Nil
  show ?case by simp
next
  case (Cons link links)
  then have c: "clean_link link" and cs: "\<forall>l\<in>set links. clean_link l" by simp_all
  from load_append_clean [OF Cons.prems(1) c] Cons.IH [of "append_seen_link link seen"] cs
  show ?case by simp
qed

lemma main_seen_file:
  assumes "main cfg web login_result site file = Inr w1"
    and "scrape_job_listings web = Inr (jobs, pages)"
  shows "seen_file w1 = fold append_seen_link (new_links_of jobs (load_seen_links file)) file"
  using assms
  by (auto simp: main_def Let_def fold_loop_body_seen_file split: sum.splits if_splits)

text \<open>
  X1. The second run does nothing when the links are clean: if a run of \<^verbatim>\<open>main\<close> ends
  normally on a store file that is absent, empty or ends with a line break, and no link
  of the listing is empty, has a blank at either end or holds a line break, then a second
  run on the file the first one left and on the same listing, whatever the postings and
  the service do then, finds no new link: it has no event and leaves the file as it is.
\<close>

theorem second_run_idle_on_clean_links:
  assumes "main cfg web login_result site file = Inr w1"
    and "scrape_job_listings web = Inr (jobs, pages)"
    and "ends_with_newline file"
    and "\<forall>j\<in>set jobs. clean_link (Job_Link j)"
  shows "main cfg' web login_result' site' (seen_file w1) =
     Inr \<lparr> seen_file = seen_file w1, seen_links = load_seen_links (seen_file w1),
           events = [], submitted = 0 \<rparr>"
proof -
  define new_links where "new_links = new_links_of jobs (load_seen_links file)"
  have file1: "seen_file w1 = fold append_seen_link new_links file"
    unfolding new_links_def using assms(1,2) by (rule main_seen_file)
  have "\<forall>link\<in>set new_links. clean_link link"
    using assms(4) by (auto simp: new_links_def new_links_of_def)
  with assms(3) have "load_seen_links (seen_file w1) = load_seen_links file \<union> set new_links"
    unfolding file1 by (rule load_fold_append_clean)
  then have "\<forall>j\<in>set jobs. Job_Link j \<in> load_seen_links (seen_file w1)"
    by (auto simp: new_links_def new_links_of_def)
  then have "new_links_of jobs (load_seen_links (seen_file w1)) = []"
    by (auto simp: new_links_of_def filter_empty_conv)
  with assms(2) show ?thesis
    by (simp add: main_def Let_def)
qed

theorem second_run_idle_on_clean_links_witness:
  "main demo_config demo_web (Inr ()) (\<lambda>l. plain_posting)
     (Some (''https://www.dice.com/job-detail/a'' @ [CHR 0x0A] @
            ''https://www.dice.com/job-detail/b'' @ [CHR 0x0A])) =
   Inr \<lparr> seen_file = Some (''https://www.dice.com/job-detail/a'' @ [CHR 0x0A] @
                           ''https://www.dice.com/job-detail/b'' @ [CHR 0x0A]),
         seen_links = load_seen_links
            (Some (''https://www.dice.com/job-detail/a'' @ [CHR 0x0A] @
                   ''https://www.dice.com/job-detail/b'' @ [CHR 0x0A])),
         events = [], submitted = 0 \<rparr>"
proof -
  have listing: "scrape_job_listings demo_web =
     Inr ([\<lparr> Job_Title = ''ML Engineer'', Job_Link = ''https://www.dice.com/job-detail/a'' \<rparr>,
           \<lparr> Job_Title = ''Data Scientist'', Job_Link = ''https://www.dice.com/job-detail/b'' \<rparr>],
          [1, 2])"
    by code_simp
  have first_run: "main demo_config demo_web (Inr ()) (\<lambda>l. plain_posting) None =
     Inr (fold (loop_body demo_config (\<lambda>l. plain_posting))
            [''https://www.dice.com/job-detail/a'', ''https://www.dice.com/job-detail/b'']
            start_world)"
    by (simp add: main_def listing load_seen_links_def new_links_of_def start_world_def)
  have file1: "seen_file (fold (loop_body demo_config (\<lambda>l. plain_posting))
            [''https://www.dice.com/job-detail/a'', ''https://www.dice.com/job-detail/b'']
            start_world) =
     Some (''https://www.dice.com/job-detail/a'' @ [CHR 0x0A] @
           ''https://www.dice.com/job-detail/b'' @ [CHR 0x0A])"
    by (simp only: fold_loop_body_seen_file)
      (simp add: start_world_def append_seen_link_def content_or_empty_def)
  have ended: "ends_with_newline None"
    by (simp add: ends_with_newline_def)
  have clean: "\<forall>j\<in>set [\<lparr> Job_Title = ''ML Engineer'', Job_Link = ''https://www.dice.com/job-detail/a'' \<rparr>,
           \<lparr> Job_Title = ''Data Scientist'', Job_Link = ''https://www.dice.com/job-detail/b'' \<rparr>].
        clean_link (Job_Link j)"
    by (simp add: clean_link_def py_strip_def py_isspace_def)
  from second_run_idle_on_clean_links [OF first_run listing ended clean,
      of demo_config "Inr ()" "\<lambda>l. plain_posting"]
  show ?thesis
    by (simp only: file1)
qed

end
